theory Spec2Isabelle
  imports Complex_Main "HOL-Library.Word"
begin

section \<open>Failure classifier of the gRPC client interceptor\<close>

text \<open>
  The gRPC status codes of \<^verbatim>\<open>google.golang.org/grpc/codes\<close>, in the order of their
  numeric values.
\<close>

datatype code =
    OK | Canceled | Unknown | InvalidArgument | DeadlineExceeded | NotFound
  | AlreadyExists | PermissionDenied | ResourceExhausted | FailedPrecondition
  | Aborted | OutOfRange | Unimplemented | Internal | Unavailable | DataLoss
  | Unauthenticated

text \<open>
  What the wrapped invoker returns as a non-nil error: a gRPC status (code and message),
  or an error value that carries no gRPC status. A nil error is \<open>None\<close>.
\<close>

datatype rpc_error = StatusErr code string | TransportErr string

text \<open>
  \<^verbatim>\<open>status.FromError\<close>: the status of the error and whether the error was a gRPC status.
  An error without a status is reported as \<open>Unknown\<close> with \<open>ok = False\<close>.
\<close>

fun FromError :: "rpc_error \<Rightarrow> code \<times> bool" where
  "FromError (StatusErr c m) = (c, True)"
| "FromError (TransportErr m) = (Unknown, False)"

definition isBreakerFailure :: "rpc_error option \<Rightarrow> bool" where
  "isBreakerFailure err =
     (case err of
        None \<Rightarrow> False
      | Some e \<Rightarrow>
          (case FromError e of
             (st, ok) \<Rightarrow>
               if \<not> ok then True
               else (case st of
                       Unavailable \<Rightarrow> True
                     | DeadlineExceeded \<Rightarrow> True
                     | ResourceExhausted \<Rightarrow> True
                     | Internal \<Rightarrow> True
                     | _ \<Rightarrow> False)))"

text \<open>The \<^verbatim>\<open>IsSuccessful\<close> setting handed to the breaker.\<close>

definition IsSuccessful :: "rpc_error option \<Rightarrow> bool" where
  "IsSuccessful err = (\<not> isBreakerFailure err)"

section \<open>Circuit breaker\<close>

text \<open>
  The interceptor builds its breaker with \<^verbatim>\<open>gobreaker.NewCircuitBreaker\<close>. The breaker's
  configuration, its \<^verbatim>\<open>ReadyToTrip\<close> and \<^verbatim>\<open>IsSuccessful\<close> settings and the interceptor
  are source code; the state machine behind \<^verbatim>\<open>cb.Execute\<close> belongs to the library
  \<^verbatim>\<open>github.com/sony/gobreaker\<close>, which is not part of the source tree.

  Times are instants and durations in nanoseconds (\<^verbatim>\<open>time.Duration\<close> is an int64); the
  failure ratio is a float64, read as a real number.
\<close>

record CircuitBreakerConfig =
  Enabled :: bool
  MaxRequests :: "32 word"
  Interval :: int
  Timeout :: int
  FailureRatio :: real
  MinRequests :: "32 word"

datatype BreakerState = Closed | Open | HalfOpen

text \<open>
  Modelled from the spec: the breaker's state record (spec section 3, CircuitState), which
  the absent library holds. The counters are natural numbers.
\<close>

record CircuitState =
  state :: BreakerState
  windowStart :: int
  requests :: nat
  successes :: nat
  failures :: nat
  openedAt :: int

text \<open>
  The \<^verbatim>\<open>ReadyToTrip\<close> closure of the interceptor, reading \<^verbatim>\<open>counts.Requests\<close> and
  \<^verbatim>\<open>counts.TotalFailures\<close> from the breaker's counters.
\<close>

definition ReadyToTrip :: "CircuitBreakerConfig \<Rightarrow> CircuitState \<Rightarrow> bool" where
  "ReadyToTrip cfg counts =
     (if 0 < unat (MinRequests cfg) \<and> requests counts < unat (MinRequests cfg) then False
      else if requests counts = 0 then False
      else FailureRatio cfg \<le> real (failures counts) / real (requests counts))"

text \<open>Modelled from the spec: a new breaker is Closed with an empty window (section 4.2).\<close>

definition NewCircuitBreaker :: "int \<Rightarrow> CircuitState" where
  "NewCircuitBreaker now =
     \<lparr>state = Closed, windowStart = now, requests = 0, successes = 0, failures = 0,
      openedAt = 0\<rparr>"

text \<open>
  Modelled from the spec: the counters are reset as a unit (section 3).
\<close>

definition resetCounts :: "CircuitState \<Rightarrow> CircuitState" where
  "resetCounts s = s\<lparr>requests := 0, successes := 0, failures := 0\<rparr>"

text \<open>
  Modelled from the spec: every transition resets the counters; a transition to Open
  records \<open>openedAt = now\<close>, a transition to Closed starts a new window (section 4.2).
\<close>

definition toOpen :: "int \<Rightarrow> CircuitState \<Rightarrow> CircuitState" where
  "toOpen now s = (resetCounts s)\<lparr>state := Open, openedAt := now\<rparr>"

definition toHalfOpen :: "CircuitState \<Rightarrow> CircuitState" where
  "toHalfOpen s = (resetCounts s)\<lparr>state := HalfOpen\<rparr>"

definition toClosed :: "int \<Rightarrow> CircuitState \<Rightarrow> CircuitState" where
  "toClosed now s = (resetCounts s)\<lparr>state := Closed, windowStart := now\<rparr>"

text \<open>
  Modelled from the spec: what happens when a call arrives, before it is attempted
  (section 4.2). While Closed, a window whose \<open>Interval\<close> has elapsed is replaced by a
  new one. While Open, once \<open>now - openedAt \<ge> Timeout\<close> the breaker moves to HalfOpen.
\<close>

definition currentState :: "CircuitBreakerConfig \<Rightarrow> int \<Rightarrow> CircuitState \<Rightarrow> CircuitState" where
  "currentState cfg now s =
     (case state s of
        Closed \<Rightarrow>
          if Interval cfg \<le> now - windowStart s then (resetCounts s)\<lparr>windowStart := now\<rparr>
          else s
      | Open \<Rightarrow> if Timeout cfg \<le> now - openedAt s then toHalfOpen s else s
      | HalfOpen \<Rightarrow> s)"

text \<open>
  Modelled from the spec: admission (section 4.2). Closed passes every call, Open rejects
  every call, HalfOpen lets up to \<open>MaxRequests\<close> probes through.
\<close>

definition admits :: "CircuitBreakerConfig \<Rightarrow> CircuitState \<Rightarrow> bool" where
  "admits cfg s =
     (case state s of
        Closed \<Rightarrow> True
      | Open \<Rightarrow> False
      | HalfOpen \<Rightarrow> requests s < unat (MaxRequests cfg))"

text \<open>
  Modelled from the spec: the bookkeeping after a completed call (section 4.2). Each
  completed call increments \<open>requests\<close> and \<open>successes\<close> or \<open>failures\<close>. While Closed
  the trip condition is evaluated after each call. In HalfOpen a failed probe reopens the
  breaker and \<open>MaxRequests\<close> successful probes in a row close it.
\<close>

definition countCall :: "bool \<Rightarrow> CircuitState \<Rightarrow> CircuitState" where
  "countCall success s =
     (if success then s\<lparr>requests := requests s + 1, successes := successes s + 1\<rparr>
      else s\<lparr>requests := requests s + 1, failures := failures s + 1\<rparr>)"

definition afterRequest ::
  "CircuitBreakerConfig \<Rightarrow> int \<Rightarrow> bool \<Rightarrow> CircuitState \<Rightarrow> CircuitState" where
  "afterRequest cfg now success s =
     (case state s of
        Closed \<Rightarrow>
          (let s1 = countCall success s
           in if ReadyToTrip cfg s1 then toOpen now s1 else s1)
      | HalfOpen \<Rightarrow>
          if \<not> success then toOpen now s
          else (let s1 = countCall success s
                in if unat (MaxRequests cfg) \<le> successes s1 then toClosed now s1 else s1)
      | Open \<Rightarrow> s)"

text \<open>
  The errors a caller of the guarded client sees. \<open>Remote\<close> is the invoker's error passed
  through; \<open>BreakerRejected\<close> is the breaker's own error for a call it did not attempt;
  \<open>Wrapf\<close> is \<^verbatim>\<open>fmt.Errorf(prefix + "%w", err)\<close> and \<open>Errorf\<close> is \<^verbatim>\<open>fmt.Errorf(msg)\<close>;
  the next three come from the order repository and the last from the handler's
  request validation.
\<close>

datatype error =
    Remote rpc_error
  | BreakerRejected
  | Wrapf string error
  | Errorf string
  | ErrOrderNotFound
  | ErrOrderItemNotFound
  | DBErr
  | ValidationErr

text \<open>
  Modelled from the spec: \<^verbatim>\<open>cb.Execute\<close> (sections 4.2 and 4.3). The wrapped target is a
  function on the state \<open>'w\<close> of everything outside the breaker; a rejected call returns
  that state as it was, so the target has not run. A call is admitted and completed at
  the one instant \<open>now\<close>.
\<close>

definition Execute ::
  "CircuitBreakerConfig \<Rightarrow> int \<Rightarrow> ('w \<Rightarrow> rpc_error option \<times> 'w) \<Rightarrow> 'w \<times> CircuitState
     \<Rightarrow> error option \<times> 'w \<times> CircuitState" where
  "Execute cfg now req ws =
     (case ws of
        (w, s) \<Rightarrow>
          (let s1 = currentState cfg now s
           in if \<not> admits cfg s1 then (Some BreakerRejected, w, s1)
              else (case req w of
                      (err, w') \<Rightarrow>
                        (map_option Remote err, w', afterRequest cfg now (IsSuccessful err) s1))))"

text \<open>
  The interceptor: a disabled breaker calls the invoker directly; an enabled one runs the
  invoker inside \<^verbatim>\<open>cb.Execute\<close> and returns its error.
\<close>

definition CircuitBreakerUnaryClientInterceptor ::
  "CircuitBreakerConfig \<Rightarrow> int \<Rightarrow> ('w \<Rightarrow> rpc_error option \<times> 'w) \<Rightarrow> 'w \<times> CircuitState
     \<Rightarrow> error option \<times> 'w \<times> CircuitState" where
  "CircuitBreakerUnaryClientInterceptor cfg now invoker ws =
     (if \<not> Enabled cfg
      then (case ws of (w, s) \<Rightarrow> (case invoker w of (err, w') \<Rightarrow> (map_option Remote err, w', s)))
      else Execute cfg now invoker ws)"

section \<open>Orders: data, store and downstream clients\<close>

text \<open>
  Amounts are Go \<^verbatim>\<open>float32\<close> values. They are read as real numbers: the comparisons and
  the order of the operations are those of the source; rounding and the values that are
  not finite are outside the model. Go's \<^verbatim>\<open>uint\<close> is a natural number and \<^verbatim>\<open>int\<close> an
  integer. Of \<^verbatim>\<open>gorm.Model\<close> only the id is kept.
\<close>

type_synonym float32 = real

type_synonym OrderStatus = string

definition OrderStatusPending :: OrderStatus where
  "OrderStatusPending = ''pending''"

record OrderItem =
  ItemID :: nat
  OrderID :: nat
  ProductID :: nat
  Quantity :: int
  UnitPrice :: float32
  TotalPrice :: float32

record Order =
  ID :: nat
  UserID :: nat
  ShippingCost :: float32
  ShippingDurationDays :: int
  Discount :: float32
  Total :: float32
  Status :: OrderStatus
  Items :: "OrderItem list"

text \<open>The request types of package \<^verbatim>\<open>dto\<close>.\<close>

record OrderItemInput =
  in_ProductID :: nat
  in_Quantity :: int

record CreateOrderRequest =
  req_UserID :: nat
  req_ShippingCost :: float32
  req_ShippingDurationDays :: int
  req_Discount :: float32
  req_Items :: "OrderItemInput list"

record AddOrderItemRequest =
  add_OrderID :: nat
  add_ProductID :: nat
  add_Quantity :: int

text \<open>Of a product only the price is read (\<^verbatim>\<open>product.GetPrice()\<close>).\<close>

record Product =
  Price :: float32

text \<open>
  The surroundings of the use case. The two gRPC clients (each behind its interceptor)
  and the database's faults are given as functions of a running number: the \<open>n\<close>-th
  call of a client, the \<open>n\<close>-th statement sent to the database. A client's reply may so
  differ from call to call. \<open>GetProductByID\<close> returns an error or a response whose
  product may be absent.
\<close>

record env =
  GetUserByID :: "nat \<Rightarrow> int \<Rightarrow> error option"
  GetProductByID :: "nat \<Rightarrow> int \<Rightarrow> error + Product option"
  db_fails :: "nat \<Rightarrow> bool"

text \<open>
  The state: the rows of the tables \<^verbatim>\<open>orders\<close> and \<^verbatim>\<open>order_items\<close> (an order row is kept
  with an empty \<open>Items\<close>), the next values of the two id sequences, and the numbers of
  statements and client calls made so far.
\<close>

record world =
  orders :: "Order list"
  order_items :: "OrderItem list"
  orders_seq :: nat
  order_items_seq :: nat
  statements :: nat
  user_calls :: nat
  product_calls :: nat

subsection \<open>The order repository\<close>

text \<open>
  One call of the database through gorm: whether it fails, and the call counted as a
  statement.
\<close>

definition db_exec :: "env \<Rightarrow> world \<Rightarrow> bool \<times> world" where
  "db_exec e w = (db_fails e (statements w), w\<lparr>statements := statements w + 1\<rparr>)"

text \<open>
  The end of a failed transaction: the tables are those of its start; sequences and
  counters are not rolled back.
\<close>

definition rollback :: "world \<Rightarrow> world \<Rightarrow> world" where
  "rollback w0 w = w\<lparr>orders := orders w0, order_items := order_items w0\<rparr>"

text \<open>
  The loop of \<^verbatim>\<open>OrderRepository.CreateOrder\<close>: each item gets id 0 and the order's id,
  and is inserted; the database assigns the id. The first failing insert ends the loop.
\<close>

fun createItems ::
  "env \<Rightarrow> nat \<Rightarrow> OrderItem list \<Rightarrow> world \<Rightarrow> (error + OrderItem list) \<times> world" where
  "createItems e oid [] w = (Inr [], w)"
| "createItems e oid (item # rest) w =
     (case db_exec e w of
        (True, w1) \<Rightarrow> (Inl DBErr, w1)
      | (False, w1) \<Rightarrow>
          (let item1 = item\<lparr>ItemID := order_items_seq w1, OrderID := oid\<rparr>;
               w2 = w1\<lparr>order_items := order_items w1 @ [item1],
                       order_items_seq := order_items_seq w1 + 1\<rparr>
           in (case createItems e oid rest w2 of
                 (Inl err, w3) \<Rightarrow> (Inl err, w3)
               | (Inr items, w3) \<Rightarrow> (Inr (item1 # items), w3))))"

text \<open>
  The items of an order as gorm saves them together with the order: each gets the order's
  id and the next id of the sequence.
\<close>

fun saveItems :: "nat \<Rightarrow> nat \<Rightarrow> OrderItem list \<Rightarrow> OrderItem list" where
  "saveItems oid next [] = []"
| "saveItems oid next (item # rest) =
     item\<lparr>ItemID := next, OrderID := oid\<rparr> # saveItems oid (Suc next) rest"

text \<open>
  \<^verbatim>\<open>OrderRepository.CreateOrder\<close>, one transaction. gorm's \<^verbatim>\<open>Create\<close> of the order inserts
  the order row and, the order's \<open>Items\<close> being an association, the rows of its items, and
  writes the ids into the items. The loop that follows sets each item's id back to 0 and
  inserts it once more: on success every item is stored twice, and the order returned
  carries the ids of the second insert.
\<close>

definition OrderRepository_CreateOrder ::
  "env \<Rightarrow> Order \<Rightarrow> world \<Rightarrow> (error + Order) \<times> world" where
  "OrderRepository_CreateOrder e order w =
     (case db_exec e w of
        (True, w1) \<Rightarrow> (Inl DBErr, rollback w w1)
      | (False, w1) \<Rightarrow>
          (let order1 = order\<lparr>ID := orders_seq w1\<rparr>;
               saved = saveItems (ID order1) (order_items_seq w1) (Items order1);
               w2 = w1\<lparr>orders := orders w1 @ [order1\<lparr>Items := []\<rparr>],
                       orders_seq := orders_seq w1 + 1,
                       order_items := order_items w1 @ saved,
                       order_items_seq := order_items_seq w1 + length saved\<rparr>
           in (case createItems e (ID order1) saved w2 of
                 (Inl err, w3) \<Rightarrow> (Inl err, rollback w w3)
               | (Inr items, w3) \<Rightarrow> (Inr (order1\<lparr>Items := items\<rparr>), w3))))"

text \<open>The order with the given id and its preloaded items, read from the tables.\<close>

definition load_order :: "nat \<Rightarrow> world \<Rightarrow> Order option" where
  "load_order oid w =
     (case find (\<lambda>ord. ID ord = oid) (orders w) of
        None \<Rightarrow> None
      | Some ord \<Rightarrow> Some (ord\<lparr>Items := filter (\<lambda>i. OrderID i = oid) (order_items w)\<rparr>))"

definition OrderRepository_GetOrderByID ::
  "env \<Rightarrow> nat \<Rightarrow> world \<Rightarrow> (error + Order) \<times> world" where
  "OrderRepository_GetOrderByID e oid w =
     (case db_exec e w of
        (True, w1) \<Rightarrow> (Inl DBErr, w1)
      | (False, w1) \<Rightarrow>
          (case load_order oid w1 of
             None \<Rightarrow> (Inl ErrOrderNotFound, w1)
           | Some ord \<Rightarrow> (Inr ord, w1)))"

text \<open>
  \<^verbatim>\<open>order_items.order_id\<close> references \<^verbatim>\<open>orders(id)\<close>: an item of an order that does not
  exist is refused by the database.
\<close>

definition OrderRepository_AddOrderItem ::
  "env \<Rightarrow> OrderItem \<Rightarrow> world \<Rightarrow> error option \<times> world" where
  "OrderRepository_AddOrderItem e item w =
     (case db_exec e w of
        (True, w1) \<Rightarrow> (Some DBErr, w1)
      | (False, w1) \<Rightarrow>
          if OrderID item \<notin> set (map ID (orders w1)) then (Some DBErr, w1)
          else (None, w1\<lparr>order_items :=
                               order_items w1 @ [item\<lparr>ItemID := order_items_seq w1\<rparr>],
                             order_items_seq := order_items_seq w1 + 1\<rparr>))"

definition OrderRepository_RemoveOrderItem ::
  "env \<Rightarrow> nat \<Rightarrow> nat \<Rightarrow> world \<Rightarrow> error option \<times> world" where
  "OrderRepository_RemoveOrderItem e orderID itemID w =
     (case db_exec e w of
        (True, w1) \<Rightarrow> (Some DBErr, w1)
      | (False, w1) \<Rightarrow>
          if filter (\<lambda>i. ItemID i = itemID \<and> OrderID i = orderID) (order_items w1) = []
          then (Some ErrOrderItemNotFound, w1)
          else (None, w1\<lparr>order_items :=
                   filter (\<lambda>i. \<not> (ItemID i = itemID \<and> OrderID i = orderID)) (order_items w1)\<rparr>))"

definition OrderRepository_UpdateOrderTotal ::
  "env \<Rightarrow> nat \<Rightarrow> float32 \<Rightarrow> world \<Rightarrow> error option \<times> world" where
  "OrderRepository_UpdateOrderTotal e orderID newTotal w =
     (case db_exec e w of
        (True, w1) \<Rightarrow> (Some DBErr, w1)
      | (False, w1) \<Rightarrow>
          if filter (\<lambda>ord. ID ord = orderID) (orders w1) = []
          then (Some ErrOrderNotFound, w1)
          else (None, w1\<lparr>orders :=
                   map (\<lambda>ord. if ID ord = orderID then ord\<lparr>Total := newTotal\<rparr> else ord)
                     (orders w1)\<rparr>))"

subsection \<open>The order use case\<close>

fun sumItemsTotal_from :: "float32 \<Rightarrow> OrderItem list \<Rightarrow> float32" where
  "sumItemsTotal_from acc [] = acc"
| "sumItemsTotal_from acc (item # rest) =
     (if 0 < TotalPrice item then sumItemsTotal_from (acc + TotalPrice item) rest
      else sumItemsTotal_from (acc + UnitPrice item * real_of_int (Quantity item)) rest)"

definition sumItemsTotal :: "OrderItem list \<Rightarrow> float32" where
  "sumItemsTotal items = sumItemsTotal_from 0 items"

definition calculateOrderTotal :: "float32 \<Rightarrow> float32 \<Rightarrow> float32 \<Rightarrow> float32" where
  "calculateOrderTotal itemsTotal shippingCost discount =
     (let discount1 = (if discount < 0 then 0 else discount);
          shippingCost1 = (if shippingCost < 0 then 0 else shippingCost);
          amount = itemsTotal + shippingCost1 - discount1
      in if amount < 0 then 0 else amount)"

text \<open>
  The request carries the id converted to \<^verbatim>\<open>int32\<close>; the error of the client is wrapped
  with \<^verbatim>\<open>%w\<close>.
\<close>

definition ensureUserExists :: "env \<Rightarrow> nat \<Rightarrow> world \<Rightarrow> error option \<times> world" where
  "ensureUserExists e userID w =
     (case GetUserByID e (user_calls w) (sint (word_of_nat userID :: 32 word)) of
        Some err \<Rightarrow>
          (Some (Wrapf ''user not found: '' err), w\<lparr>user_calls := user_calls w + 1\<rparr>)
      | None \<Rightarrow> (None, w\<lparr>user_calls := user_calls w + 1\<rparr>))"

definition ensureProductExists ::
  "env \<Rightarrow> nat \<Rightarrow> world \<Rightarrow> (error + Product) \<times> world" where
  "ensureProductExists e productID w =
     (case GetProductByID e (product_calls w) (sint (word_of_nat productID :: 64 word)) of
        Inl err \<Rightarrow>
          (Inl (Wrapf ''product not found: '' err), w\<lparr>product_calls := product_calls w + 1\<rparr>)
      | Inr None \<Rightarrow>
          (Inl (Errorf ''product not found: empty response''),
           w\<lparr>product_calls := product_calls w + 1\<rparr>)
      | Inr (Some product) \<Rightarrow> (Inr product, w\<lparr>product_calls := product_calls w + 1\<rparr>))"

text \<open>
  The loop of \<^verbatim>\<open>OrderUsecase.CreateOrder\<close> over the requested items, with its two
  variables \<open>items\<close> and \<open>itemsTotal\<close>.
\<close>

fun CreateOrder_loop ::
  "env \<Rightarrow> OrderItemInput list \<Rightarrow> OrderItem list \<Rightarrow> float32 \<Rightarrow> world
     \<Rightarrow> (error + OrderItem list \<times> float32) \<times> world" where
  "CreateOrder_loop e [] items itemsTotal w = (Inr (items, itemsTotal), w)"
| "CreateOrder_loop e (item # rest) items itemsTotal w =
     (case ensureProductExists e (in_ProductID item) w of
        (Inl err, w1) \<Rightarrow> (Inl err, w1)
      | (Inr product, w1) \<Rightarrow>
          (let unitPrice = Price product;
               totalPrice = unitPrice * real_of_int (in_Quantity item)
           in CreateOrder_loop e rest
                (items @ [\<lparr>ItemID = 0, OrderID = 0, ProductID = in_ProductID item,
                           Quantity = in_Quantity item, UnitPrice = unitPrice,
                           TotalPrice = totalPrice\<rparr>])
                (itemsTotal + totalPrice) w1))"

text \<open>
  The use case returns the order it persisted; \<^verbatim>\<open>mapOrderToResponse\<close> copies it field by
  field into the response.
\<close>

definition OrderUsecase_CreateOrder ::
  "env \<Rightarrow> CreateOrderRequest \<Rightarrow> world \<Rightarrow> (error + Order) \<times> world" where
  "OrderUsecase_CreateOrder e req w =
     (case ensureUserExists e (req_UserID req) w of
        (Some err, w1) \<Rightarrow> (Inl err, w1)
      | (None, w1) \<Rightarrow>
          (case CreateOrder_loop e (req_Items req) [] 0 w1 of
             (Inl err, w2) \<Rightarrow> (Inl err, w2)
           | (Inr (items, itemsTotal), w2) \<Rightarrow>
               (let orderTotal = calculateOrderTotal itemsTotal (req_ShippingCost req) (req_Discount req);
                    order = \<lparr>ID = 0, UserID = req_UserID req,
                             ShippingCost = req_ShippingCost req,
                             ShippingDurationDays = req_ShippingDurationDays req,
                             Discount = req_Discount req, Total = orderTotal,
                             Status = OrderStatusPending, Items = items\<rparr>
                in OrderRepository_CreateOrder e order w2)))"

text \<open>
  The tail shared by \<^verbatim>\<open>AddOrderItem\<close> and \<^verbatim>\<open>RemoveOrderItem\<close>: reload the order, sum its
  items, compute the total, write it, and return the order with the new total.
\<close>

definition recomputeTotal :: "env \<Rightarrow> nat \<Rightarrow> world \<Rightarrow> (error + Order) \<times> world" where
  "recomputeTotal e orderID w =
     (case OrderRepository_GetOrderByID e orderID w of
        (Inl err, w1) \<Rightarrow> (Inl err, w1)
      | (Inr order, w1) \<Rightarrow>
          (let itemsTotal = sumItemsTotal (Items order);
               updatedTotal = calculateOrderTotal itemsTotal (ShippingCost order) (Discount order)
           in (case OrderRepository_UpdateOrderTotal e (ID order) updatedTotal w1 of
                 (Some err, w2) \<Rightarrow> (Inl err, w2)
               | (None, w2) \<Rightarrow> (Inr (order\<lparr>Total := updatedTotal\<rparr>), w2))))"

definition OrderUsecase_AddOrderItem ::
  "env \<Rightarrow> AddOrderItemRequest \<Rightarrow> world \<Rightarrow> (error + Order) \<times> world" where
  "OrderUsecase_AddOrderItem e req w =
     (case ensureProductExists e (add_ProductID req) w of
        (Inl err, w1) \<Rightarrow> (Inl err, w1)
      | (Inr product, w1) \<Rightarrow>
          (let unitPrice = Price product;
               item = \<lparr>ItemID = 0, OrderID = add_OrderID req, ProductID = add_ProductID req,
                       Quantity = add_Quantity req, UnitPrice = unitPrice,
                       TotalPrice = unitPrice * real_of_int (add_Quantity req)\<rparr>
           in (case OrderRepository_AddOrderItem e item w1 of
                 (Some err, w2) \<Rightarrow> (Inl err, w2)
               | (None, w2) \<Rightarrow> recomputeTotal e (add_OrderID req) w2)))"

definition OrderUsecase_RemoveOrderItem ::
  "env \<Rightarrow> nat \<Rightarrow> nat \<Rightarrow> world \<Rightarrow> (error + Order) \<times> world" where
  "OrderUsecase_RemoveOrderItem e orderID itemID w =
     (case OrderRepository_RemoveOrderItem e orderID itemID w of
        (Some err, w1) \<Rightarrow> (Inl err, w1)
      | (None, w1) \<Rightarrow> recomputeTotal e orderID w1)"

subsection \<open>The gRPC handler\<close>

text \<open>
  The \<^verbatim>\<open>validate\<close> tags of the request types: \<^verbatim>\<open>required\<close> refuses the zero value,
  \<^verbatim>\<open>gt=0\<close> and \<^verbatim>\<open>gte=0\<close> compare a number with zero, \<^verbatim>\<open>min=1\<close> bounds the length of a
  slice and \<^verbatim>\<open>dive\<close> validates each element.
\<close>

definition validate_OrderItemInput :: "OrderItemInput \<Rightarrow> bool" where
  "validate_OrderItemInput i = (0 < in_ProductID i \<and> 0 < in_Quantity i)"

definition validate_CreateOrderRequest :: "CreateOrderRequest \<Rightarrow> bool" where
  "validate_CreateOrderRequest r =
     (0 < req_UserID r \<and> 0 \<le> req_ShippingCost r \<and> 0 \<le> req_ShippingDurationDays r
      \<and> 0 \<le> req_Discount r \<and> 1 \<le> length (req_Items r)
      \<and> list_all validate_OrderItemInput (req_Items r))"

text \<open>
  \<^verbatim>\<open>OrderGRPCHandler.CreateOrder\<close>, from the request it has built: a request that fails
  validation is answered with the validation error and the use case is not called.
\<close>

definition OrderGRPCHandler_CreateOrder ::
  "env \<Rightarrow> CreateOrderRequest \<Rightarrow> world \<Rightarrow> (error + Order) \<times> world" where
  "OrderGRPCHandler_CreateOrder e req w =
     (if \<not> validate_CreateOrderRequest req then (Inl ValidationErr, w)
      else OrderUsecase_CreateOrder e req w)"

subsection \<open>Auxiliary notions for the statements\<close>

text \<open>
  The reply of the product client to the validation of the \<open>k\<close>-th requested item, when
  the validations before it have each made one call.
\<close>

definition product_reply :: "env \<Rightarrow> world \<Rightarrow> nat \<Rightarrow> OrderItemInput \<Rightarrow> error + Product option" where
  "product_reply e w k item =
     GetProductByID e (product_calls w + k) (sint (word_of_nat (in_ProductID item) :: 64 word))"

text \<open>
  A concrete setting: both services answer, every product costs 20, the database works,
  and the tables are empty.
\<close>

definition example_env :: env where
  "example_env =
     \<lparr>GetUserByID = (\<lambda>n i. None),
      GetProductByID = (\<lambda>n i. Inr (Some \<lparr>Price = 20\<rparr>)),
      db_fails = (\<lambda>n. False)\<rparr>"

definition example_world :: world where
  "example_world =
     \<lparr>orders = [], order_items = [], orders_seq = 1, order_items_seq = 1, statements = 0,
      user_calls = 0, product_calls = 0\<rparr>"

definition example_req :: CreateOrderRequest where
  "example_req =
     \<lparr>req_UserID = 1, req_ShippingCost = 10, req_ShippingDurationDays = 3, req_Discount = 5,
      req_Items = [\<lparr>in_ProductID = 7, in_Quantity = 2\<rparr>]\<rparr>"

text \<open>
  Variants of the setting: the product service answers the second product lookup with
  NotFound; the breaker rejects the user lookup; the product service answers with an
  empty response; the database fails at its second statement. And a request for two
  items.
\<close>

definition example_env_notfound :: env where
  "example_env_notfound =
     example_env\<lparr>GetProductByID :=
        (\<lambda>n i. if n = 1 then Inl (Remote (StatusErr NotFound ''product not found''))
                else Inr (Some \<lparr>Price = 20\<rparr>))\<rparr>"

definition example_env_rejected :: env where
  "example_env_rejected = example_env\<lparr>GetUserByID := (\<lambda>n i. Some BreakerRejected)\<rparr>"

definition example_env_empty :: env where
  "example_env_empty = example_env\<lparr>GetProductByID := (\<lambda>n i. Inr None)\<rparr>"

definition example_env_dbfault :: env where
  "example_env_dbfault = example_env\<lparr>db_fails := (\<lambda>n. n = 1)\<rparr>"

definition example_req2 :: CreateOrderRequest where
  "example_req2 =
     \<lparr>req_UserID = 1, req_ShippingCost = 10, req_ShippingDurationDays = 3, req_Discount = 5,
      req_Items = [\<lparr>in_ProductID = 7, in_Quantity = 2\<rparr>, \<lparr>in_ProductID = 8, in_Quantity = 1\<rparr>]\<rparr>"

text \<open>A request with a negative shipping cost.\<close>

definition example_req_negship :: CreateOrderRequest where
  "example_req_negship = example_req\<lparr>req_ShippingCost := - 10\<rparr>"

text \<open>
  The invariant of the spec's data model, read on the stored order: the order with the
  given id exists and its total is \<open>max 0 (sum of its items + shippingCost - discount)\<close>
  over its stored fields and its stored items, each item counted with its stored total
  price when that is positive and with unit price times quantity otherwise.
\<close>

definition item_amount :: "OrderItem \<Rightarrow> float32" where
  "item_amount i =
     (if 0 < TotalPrice i then TotalPrice i else UnitPrice i * real_of_int (Quantity i))"

definition total_invariant :: "nat \<Rightarrow> world \<Rightarrow> bool" where
  "total_invariant oid w =
     (case load_order oid w of
        None \<Rightarrow> False
      | Some ord \<Rightarrow>
          Total ord = max 0 (sum_list (map item_amount (Items ord))
                             + ShippingCost ord - Discount ord))"

text \<open>
  \<^verbatim>\<open>errors.Unwrap\<close>: the error wrapped with \<^verbatim>\<open>%w\<close>, if there is one.
\<close>

fun Unwrap :: "error \<Rightarrow> error option" where
  "Unwrap (Wrapf p e) = Some e"
| "Unwrap _ = None"

text \<open>
  A store with two orders of one item each, and a request for one more item of the
  first order.
\<close>

definition example_world2 :: world where
  "example_world2 =
     \<lparr>orders =
        [\<lparr>ID = 1, UserID = 1, ShippingCost = 10, ShippingDurationDays = 3, Discount = 5,
          Total = 45, Status = ''pending'', Items = []\<rparr>,
         \<lparr>ID = 2, UserID = 2, ShippingCost = 0, ShippingDurationDays = 1, Discount = 0,
          Total = 20, Status = ''paid'', Items = []\<rparr>],
      order_items =
        [\<lparr>ItemID = 1, OrderID = 1, ProductID = 7, Quantity = 2, UnitPrice = 20, TotalPrice = 40\<rparr>,
         \<lparr>ItemID = 2, OrderID = 2, ProductID = 7, Quantity = 1, UnitPrice = 20, TotalPrice = 20\<rparr>],
      orders_seq = 3, order_items_seq = 3, statements = 0, user_calls = 0, product_calls = 0\<rparr>"

definition example_add :: AddOrderItemRequest where
  "example_add = \<lparr>add_OrderID = 1, add_ProductID = 9, add_Quantity = 1\<rparr>"

text \<open>
  A run of calls through the interceptor, one after the other: each call has its instant
  and the error its target returns; the state outside the breaker counts the calls that
  reached the target.
\<close>

fun run_calls ::
  "CircuitBreakerConfig \<Rightarrow> (int \<times> rpc_error option) list \<Rightarrow> nat \<times> CircuitState
     \<Rightarrow> nat \<times> CircuitState" where
  "run_calls cfg [] ws = ws"
| "run_calls cfg (c # calls) ws =
     run_calls cfg calls
       (snd (CircuitBreakerUnaryClientInterceptor cfg (fst c) (\<lambda>n. (snd c, Suc n)) ws))"

text \<open>
  A breaker configuration: at least 4 requests in a window of 60, half of them failed;
  20 of cool-down; 2 probes.
\<close>

definition example_cfg :: CircuitBreakerConfig where
  "example_cfg =
     \<lparr>Enabled = True, MaxRequests = 2, Interval = 60, Timeout = 20, FailureRatio = 1 / 2,
      MinRequests = 4\<rparr>"

definition example_calls :: "(int \<times> rpc_error option) list" where
  "example_calls =
     [(1, None), (2, None), (3, Some (StatusErr Unavailable ''down'')),
      (4, Some (TransportErr ''connection reset''))]"

text \<open>
  The example breaker, opened at instant 4; two successful probes after the cool-down;
  and a state in HalfOpen whose probes are used up.
\<close>

definition example_open :: CircuitState where
  "example_open = toOpen 4 (NewCircuitBreaker 0)"

definition example_probes :: "(int \<times> rpc_error option) list" where
  "example_probes = [(24, None), (25, Some (StatusErr NotFound ''no such user''))]"

definition example_halfopen_full :: CircuitState where
  "example_halfopen_full =
     \<lparr>state = HalfOpen, windowStart = 0, requests = 2, successes = 1, failures = 0,
      openedAt = 4\<rparr>"

section \<open>Properties of the classifier\<close>

lemma isBreakerFailure_nil: "isBreakerFailure None = False"
  by (simp add: isBreakerFailure_def)

lemma isBreakerFailure_status:
  "isBreakerFailure (Some (StatusErr c m)) =
     (c = Unavailable \<or> c = DeadlineExceeded \<or> c = ResourceExhausted \<or> c = Internal)"
  by (cases c) (simp_all add: isBreakerFailure_def)

lemma isBreakerFailure_transport: "isBreakerFailure (Some (TransportErr m)) = True"
  by (simp add: isBreakerFailure_def)

lemma afterRequest_failures:
  "failures (afterRequest cfg now ok s) \<le> failures s + (if ok then 0 else 1)"
  by (cases "state s")
     (simp_all add: afterRequest_def Let_def countCall_def toOpen_def toClosed_def resetCounts_def)

lemma currentState_failures: "failures (currentState cfg now s) \<le> failures s"
  by (cases "state s") (simp_all add: currentState_def toHalfOpen_def resetCounts_def)

lemma Execute_failures:
  "failures (snd (snd (Execute cfg now req (w, s))))
     \<le> failures s + (if isBreakerFailure (fst (req w)) then 1 else 0)"
proof (cases "admits cfg (currentState cfg now s)")
  case False
  then show ?thesis
    using currentState_failures [of cfg now s] by (simp add: Execute_def Let_def)
next
  case True
  obtain err w' where r: "req w = (err, w')" by (cases "req w")
  have "failures (afterRequest cfg now (IsSuccessful err) (currentState cfg now s))
          \<le> failures (currentState cfg now s) + (if IsSuccessful err then 0 else 1)"
    by (rule afterRequest_failures)
  with True r show ?thesis
    using currentState_failures [of cfg now s]
    by (simp add: Execute_def Let_def IsSuccessful_def split: if_splits)
qed

text \<open>
  Claim C5. The classifier is a function of the call's error alone. A nil error is not a
  breaker failure. The status codes Unavailable, DeadlineExceeded, ResourceExhausted and
  Internal are breaker failures, and so is every error that is not a gRPC status. Every
  other status, NotFound among them, is not a breaker failure. A call through the
  breaker raises the failure counter by at most one, and only when the classifier calls
  its outcome a failure: a NotFound reply leaves the counter where it was or lower.
\<close>

theorem failure_classifier:
  "isBreakerFailure None = False
   \<and> isBreakerFailure (Some (TransportErr m)) = True
   \<and> isBreakerFailure (Some (StatusErr c m)) =
         (c \<in> {Unavailable, DeadlineExceeded, ResourceExhausted, Internal})
   \<and> isBreakerFailure (Some (StatusErr NotFound m)) = False
   \<and> IsSuccessful err = (\<not> isBreakerFailure err)
   \<and> failures (snd (snd (Execute cfg now req (w, s))))
         \<le> failures s + (if isBreakerFailure (fst (req w)) then 1 else 0)
   \<and> failures (snd (snd (Execute cfg now (\<lambda>w. (Some (StatusErr NotFound m), w)) (w, s))))
         \<le> failures s"
proof -
  have nf: "isBreakerFailure (Some (StatusErr NotFound m)) = False"
    by (simp add: isBreakerFailure_status)
  have "failures (snd (snd (Execute cfg now (\<lambda>w. (Some (StatusErr NotFound m), w)) (w, s))))
          \<le> failures s
              + (if isBreakerFailure (fst ((\<lambda>w. (Some (StatusErr NotFound m), w)) w)) then 1 else 0)"
    by (rule Execute_failures)
  then have last: "failures (snd (snd (Execute cfg now (\<lambda>w. (Some (StatusErr NotFound m), w)) (w, s))))
          \<le> failures s"
    using nf by simp
  show ?thesis
    using nf last Execute_failures [of cfg now req w s]
    by (simp add: isBreakerFailure_nil isBreakerFailure_transport isBreakerFailure_status
        IsSuccessful_def)
qed

section \<open>Order creation\<close>

lemma calculateOrderTotal_max:
  "calculateOrderTotal itemsTotal shippingCost discount =
     max 0 (itemsTotal + max 0 shippingCost - max 0 discount)"
  by (simp add: calculateOrderTotal_def Let_def max_def)

lemma sumItemsTotal_from_sum:
  "sumItemsTotal_from acc items =
     acc + sum_list (map (\<lambda>i. if 0 < TotalPrice i then TotalPrice i
                                else UnitPrice i * real_of_int (Quantity i)) items)"
  by (induction items arbitrary: acc) simp_all

lemma db_exec_rows [simp]:
  "orders (snd (db_exec e w)) = orders w"
  "order_items (snd (db_exec e w)) = order_items w"
  "statements (snd (db_exec e w)) = statements w + 1"
  "product_calls (snd (db_exec e w)) = product_calls w"
  "user_calls (snd (db_exec e w)) = user_calls w"
  "fst (db_exec e w) = db_fails e (statements w)"
  by (simp_all add: db_exec_def)

lemma createItems_orders:
  "createItems e oid its w = (r, w') \<Longrightarrow>
     orders w' = orders w \<and> user_calls w' = user_calls w \<and> product_calls w' = product_calls w"
proof (induction its arbitrary: w r w')
  case Nil
  then show ?case by simp
next
  case (Cons it its)
  then show ?case
    by (auto simp: db_exec_def Let_def split: prod.splits sum.splits bool.splits if_splits)
qed

lemma createItems_Inr:
  "createItems e oid its w = (Inr items, w') \<Longrightarrow>
     order_items w' = order_items w @ items
     \<and> length items = length its
     \<and> list_all (\<lambda>i. OrderID i = oid) items
     \<and> map ProductID items = map ProductID its
     \<and> map Quantity items = map Quantity its
     \<and> map UnitPrice items = map UnitPrice its
     \<and> map TotalPrice items = map TotalPrice its"
proof (induction its arbitrary: w items w')
  case Nil
  then show ?case by simp
next
  case (Cons it its)
  then show ?case
    by (auto simp: db_exec_def Let_def split: prod.splits sum.splits bool.splits if_splits)
qed

lemma createItems_ok:
  "\<forall>k<length its. \<not> db_fails e (statements w + k) \<Longrightarrow>
     \<exists>items w'. createItems e oid its w = (Inr items, w')"
proof (induction its arbitrary: w)
  case Nil
  then show ?case by simp
next
  case (Cons it its)
  have 0: "\<not> db_fails e (statements w)" using Cons.prems by auto
  let ?w2 = "(w\<lparr>statements := statements w + 1\<rparr>)\<lparr>order_items := order_items w @ [it\<lparr>ItemID := order_items_seq w, OrderID := oid\<rparr>],
                       order_items_seq := order_items_seq w + 1\<rparr>"
  have "\<forall>k<length its. \<not> db_fails e (statements ?w2 + k)"
    using Cons.prems by (auto simp: All_less_Suc2)
  from Cons.IH[OF this] obtain items w' where "createItems e oid its ?w2 = (Inr items, w')" by blast
  with 0 show ?case by (simp add: db_exec_def Let_def)
qed

lemma ensureProductExists_world:
  "ensureProductExists e pid w = (r, w') \<Longrightarrow> w' = w\<lparr>product_calls := product_calls w + 1\<rparr>"
  by (auto simp: ensureProductExists_def split: sum.splits option.splits)

lemma ensureUserExists_world:
  "ensureUserExists e uid w = (r, w') \<Longrightarrow> w' = w\<lparr>user_calls := user_calls w + 1\<rparr>"
  by (auto simp: ensureUserExists_def split: option.splits)

lemma CreateOrder_loop_world:
  "CreateOrder_loop e inps items tot w = (r, w') \<Longrightarrow>
     orders w' = orders w \<and> order_items w' = order_items w \<and> statements w' = statements w
     \<and> orders_seq w' = orders_seq w \<and> order_items_seq w' = order_items_seq w
     \<and> user_calls w' = user_calls w"
proof (induction inps arbitrary: items tot w r w')
  case Nil
  then show ?case by simp
next
  case (Cons inp inps)
  obtain r1 w1 where e1: "ensureProductExists e (in_ProductID inp) w = (r1, w1)"
    by (cases "ensureProductExists e (in_ProductID inp) w")
  note w1 = ensureProductExists_world [OF e1]
  show ?case
  proof (cases r1)
    case (Inl err)
    with Cons.prems e1 w1 show ?thesis by auto
  next
    case (Inr product)
    with Cons.prems e1 have
      "CreateOrder_loop e inps
         (items @ [\<lparr>ItemID = 0, OrderID = 0, ProductID = in_ProductID inp,
                    Quantity = in_Quantity inp, UnitPrice = Price product,
                    TotalPrice = Price product * real_of_int (in_Quantity inp)\<rparr>])
         (tot + Price product * real_of_int (in_Quantity inp)) w1 = (r, w')"
      by (simp add: Let_def)
    from Cons.IH [OF this] w1 show ?thesis by simp
  qed
qed

lemma CreateOrder_loop_ok:
  "length ps = length inps \<Longrightarrow>
   \<forall>k<length inps. product_reply e w k (inps ! k) = Inr (Some (ps ! k)) \<Longrightarrow>
   CreateOrder_loop e inps items tot w =
     (Inr (items @ map2 (\<lambda>p i. \<lparr>ItemID = 0, OrderID = 0, ProductID = in_ProductID i,
                                 Quantity = in_Quantity i, UnitPrice = Price p,
                                 TotalPrice = Price p * real_of_int (in_Quantity i)\<rparr>) ps inps,
           tot + sum_list (map2 (\<lambda>p i. Price p * real_of_int (in_Quantity i)) ps inps)),
      w\<lparr>product_calls := product_calls w + length inps\<rparr>)"
proof (induction inps arbitrary: ps items tot w)
  case Nil
  then show ?case by simp
next
  case (Cons inp inps)
  from Cons.prems(1) obtain p ps' where ps: "ps = p # ps'" and len: "length ps' = length inps"
    by (cases ps) auto
  from Cons.prems(2) have hd: "product_reply e w 0 inp = Inr (Some p)"
    using ps by auto
  let ?w1 = "w\<lparr>product_calls := product_calls w + 1\<rparr>"
  have tl: "\<forall>k<length inps. product_reply e ?w1 k (inps ! k) = Inr (Some (ps' ! k))"
  proof (intro allI impI)
    fix k assume "k < length inps"
    then have "product_reply e w (Suc k) ((inp # inps) ! Suc k) = Inr (Some (ps ! Suc k))"
      using Cons.prems(2) by auto
    then show "product_reply e ?w1 k (inps ! k) = Inr (Some (ps' ! k))"
      using ps by (simp add: product_reply_def)
  qed
  have e1: "ensureProductExists e (in_ProductID inp) w = (Inr p, ?w1)"
    using hd by (simp add: ensureProductExists_def product_reply_def)
  show ?case
    using Cons.IH [OF len tl] e1 ps by (simp add: Let_def algebra_simps)
qed

lemma CreateOrder_loop_fail:
  "k < length inps \<Longrightarrow> \<forall>p. product_reply e w k (inps ! k) \<noteq> Inr (Some p) \<Longrightarrow>
   \<exists>err w'. CreateOrder_loop e inps items tot w = (Inl err, w')"
proof (induction inps arbitrary: k items tot w)
  case Nil
  then show ?case by simp
next
  case (Cons inp inps)
  obtain r1 w1 where e1: "ensureProductExists e (in_ProductID inp) w = (r1, w1)"
    by (cases "ensureProductExists e (in_ProductID inp) w")
  note w1 = ensureProductExists_world [OF e1]
  show ?case
  proof (cases r1)
    case (Inl err)
    with e1 show ?thesis by simp
  next
    case (Inr product)
    then have hd: "product_reply e w 0 inp = Inr (Some product)"
      using e1 by (auto simp: ensureProductExists_def product_reply_def split: sum.splits option.splits)
    with Cons.prems obtain k' where k: "k = Suc k'" by (cases k) auto
    with Cons.prems have k': "k' < length inps" by simp
    have "\<forall>p. product_reply e w1 k' (inps ! k') \<noteq> Inr (Some p)"
      using Cons.prems(2) k w1 by (simp add: product_reply_def)
    from Cons.IH [OF k' this] Inr e1 show ?thesis by (simp add: Let_def)
  qed
qed

lemma new_items_UnitPrice:
  "length ps = length inps \<Longrightarrow>
   map UnitPrice (map2 (\<lambda>p i. \<lparr>ItemID = 0, OrderID = 0, ProductID = in_ProductID i,
                                 Quantity = in_Quantity i, UnitPrice = Price p,
                                 TotalPrice = Price p * real_of_int (in_Quantity i)\<rparr>) ps inps)
     = map Price ps"
  by (induction ps inps rule: list_induct2) simp_all

lemma new_items_Quantity:
  "length ps = length inps \<Longrightarrow>
   map Quantity (map2 (\<lambda>p i. \<lparr>ItemID = 0, OrderID = 0, ProductID = in_ProductID i,
                                 Quantity = in_Quantity i, UnitPrice = Price p,
                                 TotalPrice = Price p * real_of_int (in_Quantity i)\<rparr>) ps inps)
     = map in_Quantity inps"
  by (induction ps inps rule: list_induct2) simp_all

lemma saveItems_fields:
  "length (saveItems oid next items) = length items"
  "map ProductID (saveItems oid next items) = map ProductID items"
  "map Quantity (saveItems oid next items) = map Quantity items"
  "map UnitPrice (saveItems oid next items) = map UnitPrice items"
  "map TotalPrice (saveItems oid next items) = map TotalPrice items"
  "list_all (\<lambda>i. OrderID i = oid) (saveItems oid next items)"
  by (induction items arbitrary: "next") simp_all

lemma OrderRepository_CreateOrder_Inl:
  "OrderRepository_CreateOrder e order w = (Inl err, w') \<Longrightarrow>
     orders w' = orders w \<and> order_items w' = order_items w"
  by (auto simp: OrderRepository_CreateOrder_def db_exec_def Let_def rollback_def
      split: prod.splits sum.splits bool.splits if_splits)

lemma OrderRepository_CreateOrder_Inr:
  assumes "OrderRepository_CreateOrder e order w = (Inr ord, w')"
  shows "orders w' = orders w @ [ord\<lparr>Items := []\<rparr>]"
    and "order_items w' =
           order_items w @ saveItems (ID ord) (order_items_seq w) (Items order) @ Items ord"
    and "ord\<lparr>Items := []\<rparr> = order\<lparr>ID := orders_seq w, Items := []\<rparr>"
    and "length (Items ord) = length (Items order)"
    and "list_all (\<lambda>i. OrderID i = ID ord) (Items ord)"
    and "map ProductID (Items ord) = map ProductID (Items order)"
    and "map Quantity (Items ord) = map Quantity (Items order)"
    and "map UnitPrice (Items ord) = map UnitPrice (Items order)"
    and "map TotalPrice (Items ord) = map TotalPrice (Items order)"
proof -
  let ?w1 = "w\<lparr>statements := statements w + 1\<rparr>"
  let ?o1 = "order\<lparr>ID := orders_seq w\<rparr>"
  let ?saved = "saveItems (orders_seq w) (order_items_seq w) (Items order)"
  let ?w2 = "?w1\<lparr>orders := orders w @ [?o1\<lparr>Items := []\<rparr>], orders_seq := orders_seq w + 1,
                   order_items := order_items w @ ?saved,
                   order_items_seq := order_items_seq w + length ?saved\<rparr>"
  from assms have nf: "\<not> db_fails e (statements w)"
    by (auto simp: OrderRepository_CreateOrder_def db_exec_def Let_def split: if_splits)
  obtain r3 w3 where c: "createItems e (orders_seq w) ?saved ?w2 = (r3, w3)"
    by (cases "createItems e (orders_seq w) ?saved ?w2")
  with assms nf obtain items where r3: "r3 = Inr items" and ord: "ord = ?o1\<lparr>Items := items\<rparr>"
    and w': "w' = w3"
    by (auto simp: OrderRepository_CreateOrder_def db_exec_def Let_def split: sum.splits)
  note I = createItems_Inr [OF c [unfolded r3]] and O = createItems_orders [OF c]
  note S = saveItems_fields [of "orders_seq w" "order_items_seq w" "Items order"]
  show "orders w' = orders w @ [ord\<lparr>Items := []\<rparr>]" using O ord w' by simp
  show "order_items w' =
          order_items w @ saveItems (ID ord) (order_items_seq w) (Items order) @ Items ord"
    using I ord w' by simp
  show "ord\<lparr>Items := []\<rparr> = order\<lparr>ID := orders_seq w, Items := []\<rparr>" using ord by simp
  show "length (Items ord) = length (Items order)" using I S ord by simp
  show "list_all (\<lambda>i. OrderID i = ID ord) (Items ord)" using I ord by simp
  show "map ProductID (Items ord) = map ProductID (Items order)" using I S ord by simp
  show "map Quantity (Items ord) = map Quantity (Items order)" using I S ord by simp
  show "map UnitPrice (Items ord) = map UnitPrice (Items order)" using I S ord by simp
  show "map TotalPrice (Items ord) = map TotalPrice (Items order)" using I S ord by simp
qed

lemma OrderRepository_CreateOrder_ok:
  assumes "\<forall>k\<le>length (Items order). \<not> db_fails e (statements w + k)"
  shows "\<exists>ord w'. OrderRepository_CreateOrder e order w = (Inr ord, w')"
proof -
  let ?w1 = "w\<lparr>statements := statements w + 1\<rparr>"
  let ?o1 = "order\<lparr>ID := orders_seq w\<rparr>"
  let ?saved = "saveItems (orders_seq w) (order_items_seq w) (Items order)"
  let ?w2 = "?w1\<lparr>orders := orders w @ [?o1\<lparr>Items := []\<rparr>], orders_seq := orders_seq w + 1,
                   order_items := order_items w @ ?saved,
                   order_items_seq := order_items_seq w + length ?saved\<rparr>"
  from assms have nf: "\<not> db_fails e (statements w)" by force
  have "\<forall>k<length ?saved. \<not> db_fails e (statements ?w2 + k)"
  proof (intro allI impI)
    fix k assume "k < length ?saved"
    then have "Suc k \<le> length (Items order)" by (simp add: saveItems_fields)
    with assms have "\<not> db_fails e (statements w + Suc k)" by blast
    then show "\<not> db_fails e (statements ?w2 + k)" by simp
  qed
  from createItems_ok [OF this] obtain items w' where
    "createItems e (orders_seq w) ?saved ?w2 = (Inr items, w')" by blast
  with nf show ?thesis
    by (simp add: OrderRepository_CreateOrder_def db_exec_def Let_def)
qed

lemma OrderUsecase_CreateOrder_ok:
  assumes user: "GetUserByID e (user_calls w) (sint (word_of_nat (req_UserID req) :: 32 word)) = None"
    and len: "length ps = length (req_Items req)"
    and prods: "\<forall>k<length (req_Items req).
                  product_reply e w k (req_Items req ! k) = Inr (Some (ps ! k))"
    and db: "\<forall>k\<le>length (req_Items req). \<not> db_fails e (statements w + k)"
  shows "\<exists>ord w'. OrderUsecase_CreateOrder e req w = (Inr ord, w')
           \<and> Total ord =
               max 0 (sum_list (map2 (\<lambda>p i. Price p * real_of_int (in_Quantity i)) ps (req_Items req))
                      + max 0 (req_ShippingCost req) - max 0 (req_Discount req))
           \<and> Status ord = ''pending''
           \<and> map UnitPrice (Items ord) = map Price ps
           \<and> map Quantity (Items ord) = map in_Quantity (req_Items req)
           \<and> orders w' = orders w @ [ord\<lparr>Items := []\<rparr>]"
proof -
  let ?w1 = "w\<lparr>user_calls := user_calls w + 1\<rparr>"
  let ?n = "length (req_Items req)"
  let ?items = "map2 (\<lambda>p i. \<lparr>ItemID = 0, OrderID = 0, ProductID = in_ProductID i,
                                 Quantity = in_Quantity i, UnitPrice = Price p,
                                 TotalPrice = Price p * real_of_int (in_Quantity i)\<rparr>) ps (req_Items req)"
  let ?sum = "sum_list (map2 (\<lambda>p i. Price p * real_of_int (in_Quantity i)) ps (req_Items req))"
  let ?w2 = "?w1\<lparr>product_calls := product_calls ?w1 + ?n\<rparr>"
  let ?order = "\<lparr>ID = 0, UserID = req_UserID req, ShippingCost = req_ShippingCost req,
                 ShippingDurationDays = req_ShippingDurationDays req,
                 Discount = req_Discount req,
                 Total = calculateOrderTotal ?sum (req_ShippingCost req) (req_Discount req),
                 Status = OrderStatusPending, Items = ?items\<rparr>"
  have u: "ensureUserExists e (req_UserID req) w = (None, ?w1)"
    using user by (simp add: ensureUserExists_def)
  have "\<forall>k<?n. product_reply e ?w1 k (req_Items req ! k) = Inr (Some (ps ! k))"
    using prods by (simp add: product_reply_def)
  from CreateOrder_loop_ok [OF len this, of "[]" 0]
  have l: "CreateOrder_loop e (req_Items req) [] 0 ?w1 = (Inr (?items, ?sum), ?w2)" by simp
  have uc: "OrderUsecase_CreateOrder e req w = OrderRepository_CreateOrder e ?order ?w2"
    using u l by (simp add: OrderUsecase_CreateOrder_def Let_def)
  have "\<forall>k\<le>length (Items ?order). \<not> db_fails e (statements ?w2 + k)"
    using db len by simp
  from OrderRepository_CreateOrder_ok [OF this] obtain ord w'
    where r: "OrderRepository_CreateOrder e ?order ?w2 = (Inr ord, w')" by blast
  note R = OrderRepository_CreateOrder_Inr [OF r]
  have tot: "Total ord = calculateOrderTotal ?sum (req_ShippingCost req) (req_Discount req)"
    using arg_cong [OF R(3), of Total] by simp
  have st: "Status ord = OrderStatusPending"
    using arg_cong [OF R(3), of Status] by simp
  have "map UnitPrice (Items ord) = map UnitPrice ?items" using R(8) by simp
  also have "\<dots> = map Price ps" by (rule new_items_UnitPrice [OF len])
  finally have up: "map UnitPrice (Items ord) = map Price ps" .
  have "map Quantity (Items ord) = map Quantity ?items" using R(7) by simp
  also have "\<dots> = map in_Quantity (req_Items req)" by (rule new_items_Quantity [OF len])
  finally have q: "map Quantity (Items ord) = map in_Quantity (req_Items req)" .
  have t2: "Total ord = max 0 (?sum + max 0 (req_ShippingCost req) - max 0 (req_Discount req))"
    using tot by (simp only: calculateOrderTotal_max)
  have s2: "Status ord = ''pending''" using st by (simp add: OrderStatusPending_def)
  have res: "OrderUsecase_CreateOrder e req w = (Inr ord, w')" using uc r by simp
  have o': "orders w' = orders w @ [ord\<lparr>Items := []\<rparr>]" using R(1) by simp
  show ?thesis
    apply (rule exI [of _ ord])
    apply (rule exI [of _ w'])
    apply (intro conjI)
         apply (rule res)
        apply (rule t2)
       apply (rule s2)
      apply (rule up)
     apply (rule q)
    apply (rule o')
    done
qed



section \<open>Order creation is all or nothing\<close>

lemma CreateOrder_loop_Inr:
  "CreateOrder_loop e inps items tot w = (Inr (items', tot'), w') \<Longrightarrow>
     length items' = length items + length inps
     \<and> (\<forall>k<length inps. \<exists>p. product_reply e w k (inps ! k) = Inr (Some p))"
proof (induction inps arbitrary: items tot w)
  case Nil
  then show ?case by simp
next
  case (Cons inp inps)
  obtain r1 w1 where e1: "ensureProductExists e (in_ProductID inp) w = (r1, w1)"
    by (cases "ensureProductExists e (in_ProductID inp) w")
  note w1 = ensureProductExists_world [OF e1]
  from Cons.prems e1 obtain product where r1: "r1 = Inr product"
    by (cases r1) auto
  have hd: "product_reply e w 0 inp = Inr (Some product)"
    using e1 r1
    by (auto simp: ensureProductExists_def product_reply_def split: sum.splits option.splits)
  from Cons.prems e1 r1 have
    "CreateOrder_loop e inps
       (items @ [\<lparr>ItemID = 0, OrderID = 0, ProductID = in_ProductID inp,
                  Quantity = in_Quantity inp, UnitPrice = Price product,
                  TotalPrice = Price product * real_of_int (in_Quantity inp)\<rparr>])
       (tot + Price product * real_of_int (in_Quantity inp)) w1 = (Inr (items', tot'), w')"
    by (simp add: Let_def)
  from Cons.IH [OF this] have len: "length items' = length items + length (inp # inps)"
    and tl: "\<forall>k<length inps. \<exists>p. product_reply e w1 k (inps ! k) = Inr (Some p)"
    by simp_all
  have "\<forall>k<length (inp # inps). \<exists>p. product_reply e w k ((inp # inps) ! k) = Inr (Some p)"
  proof (intro allI impI)
    fix k assume k: "k < length (inp # inps)"
    show "\<exists>p. product_reply e w k ((inp # inps) ! k) = Inr (Some p)"
    proof (cases k)
      case 0
      with hd show ?thesis by simp
    next
      case (Suc k')
      with k have "k' < length inps" by simp
      with tl obtain p where "product_reply e w1 k' (inps ! k') = Inr (Some p)" by blast
      with Suc w1 show ?thesis by (simp add: product_reply_def)
    qed
  qed
  with len show ?case by blast
qed

lemma CreateOrder_validation_fails:
  assumes "GetUserByID e (user_calls w) (sint (word_of_nat (req_UserID req) :: 32 word)) \<noteq> None
           \<or> (\<exists>k<length (req_Items req).
                 \<forall>p. product_reply e w k (req_Items req ! k) \<noteq> Inr (Some p))"
  shows "\<exists>err w'. OrderUsecase_CreateOrder e req w = (Inl err, w')
           \<and> orders w' = orders w \<and> order_items w' = order_items w
           \<and> statements w' = statements w"
proof (cases "GetUserByID e (user_calls w) (sint (word_of_nat (req_UserID req) :: 32 word))")
  case (Some err)
  then show ?thesis
    by (simp add: OrderUsecase_CreateOrder_def ensureUserExists_def)
next
  case None
  let ?w1 = "w\<lparr>user_calls := user_calls w + 1\<rparr>"
  have u: "ensureUserExists e (req_UserID req) w = (None, ?w1)"
    using None by (simp add: ensureUserExists_def)
  from None assms obtain k where k: "k < length (req_Items req)"
    and f: "\<forall>p. product_reply e w k (req_Items req ! k) \<noteq> Inr (Some p)" by auto
  from f have "\<forall>p. product_reply e ?w1 k (req_Items req ! k) \<noteq> Inr (Some p)"
    by (simp add: product_reply_def)
  from CreateOrder_loop_fail [OF k this] obtain err w' where
    l: "CreateOrder_loop e (req_Items req) [] 0 ?w1 = (Inl err, w')" by blast
  from CreateOrder_loop_world [OF l] have
    "orders w' = orders w \<and> order_items w' = order_items w \<and> statements w' = statements w"
    by simp
  moreover have "OrderUsecase_CreateOrder e req w = (Inl err, w')"
    using u l by (simp add: OrderUsecase_CreateOrder_def)
  ultimately show ?thesis by blast
qed

lemma CreateOrder_cases:
  assumes "OrderUsecase_CreateOrder e req w = (r, w')"
  obtains (user) err where "r = Inl err" "w' = w\<lparr>user_calls := user_calls w + 1\<rparr>"
  | (product) err where "r = Inl err"
      "CreateOrder_loop e (req_Items req) [] 0 (w\<lparr>user_calls := user_calls w + 1\<rparr>) = (Inl err, w')"
  | (store) items itemsTotal w2 where
      "GetUserByID e (user_calls w) (sint (word_of_nat (req_UserID req) :: 32 word)) = None"
      "CreateOrder_loop e (req_Items req) [] 0 (w\<lparr>user_calls := user_calls w + 1\<rparr>)
         = (Inr (items, itemsTotal), w2)"
      "OrderRepository_CreateOrder e
         \<lparr>ID = 0, UserID = req_UserID req, ShippingCost = req_ShippingCost req,
          ShippingDurationDays = req_ShippingDurationDays req, Discount = req_Discount req,
          Total = calculateOrderTotal itemsTotal (req_ShippingCost req) (req_Discount req),
          Status = OrderStatusPending, Items = items\<rparr> w2 = (r, w')"
proof (cases "GetUserByID e (user_calls w) (sint (word_of_nat (req_UserID req) :: 32 word))")
  case (Some err)
  with assms user show ?thesis
    by (auto simp: OrderUsecase_CreateOrder_def ensureUserExists_def)
next
  case None
  let ?w1 = "w\<lparr>user_calls := user_calls w + 1\<rparr>"
  have u: "ensureUserExists e (req_UserID req) w = (None, ?w1)"
    using None by (simp add: ensureUserExists_def)
  obtain r2 w2 where l: "CreateOrder_loop e (req_Items req) [] 0 ?w1 = (r2, w2)"
    by (cases "CreateOrder_loop e (req_Items req) [] 0 ?w1")
  show ?thesis
  proof (cases r2)
    case (Inl err)
    with assms u l product show ?thesis by (auto simp: OrderUsecase_CreateOrder_def)
  next
    case (Inr p)
    obtain items itemsTotal where p: "p = (items, itemsTotal)" by (cases p)
    with assms u l Inr None store show ?thesis
      by (auto simp: OrderUsecase_CreateOrder_def Let_def)
  qed
qed

lemma CreateOrder_Inl_rows:
  assumes "OrderUsecase_CreateOrder e req w = (Inl err, w')"
  shows "orders w' = orders w \<and> order_items w' = order_items w"
  using assms
proof (cases rule: CreateOrder_cases)
  case (user err)
  then show ?thesis by simp
next
  case (product err)
  from CreateOrder_loop_world [OF product(2)] show ?thesis by simp
next
  case (store items itemsTotal w2)
  from CreateOrder_loop_world [OF store(2)] OrderRepository_CreateOrder_Inl [OF store(3)]
  show ?thesis by simp
qed

lemma CreateOrder_Inr_rows:
  assumes "OrderUsecase_CreateOrder e req w = (Inr ord, w')"
  shows "orders w' = orders w @ [ord\<lparr>Items := []\<rparr>]
     \<and> (\<exists>saved. order_items w' = order_items w @ saved @ Items ord
           \<and> length saved = length (req_Items req))
     \<and> length (Items ord) = length (req_Items req)
     \<and> GetUserByID e (user_calls w) (sint (word_of_nat (req_UserID req) :: 32 word)) = None
     \<and> (\<forall>k<length (req_Items req). \<exists>p. product_reply e w k (req_Items req ! k) = Inr (Some p))"
  using assms
proof (cases rule: CreateOrder_cases)
  case (user err)
  then show ?thesis by simp
next
  case (product err)
  then show ?thesis by simp
next
  case (store items itemsTotal w2)
  note W = CreateOrder_loop_world [OF store(2)]
  note L = CreateOrder_loop_Inr [OF store(2)]
  note R = OrderRepository_CreateOrder_Inr [OF store(3)]
  have "\<forall>k<length (req_Items req). \<exists>p. product_reply e w k (req_Items req ! k) = Inr (Some p)"
    using L by (simp add: product_reply_def)
  moreover have "orders w' = orders w @ [ord\<lparr>Items := []\<rparr>]" using R(1) W by simp
  moreover have "order_items w' =
      order_items w @ saveItems (ID ord) (order_items_seq w2) items @ Items ord"
    using R(2) W by simp
  moreover have "length (saveItems (ID ord) (order_items_seq w2) items) = length (req_Items req)"
    using L by (simp add: saveItems_fields)
  moreover have "length (Items ord) = length (req_Items req)" using R(4) L by simp
  ultimately show ?thesis using store(1) by blast
qed

lemmas example_defs = example_env_def example_env_notfound_def example_env_rejected_def
  example_env_empty_def example_env_dbfault_def example_world_def example_req_def example_req2_def

lemmas usecase_defs = OrderUsecase_CreateOrder_def ensureUserExists_def ensureProductExists_def
  OrderRepository_CreateOrder_def db_exec_def rollback_def calculateOrderTotal_def
  OrderStatusPending_def Let_def

text \<open>
  Claim C2. If the user validation fails, or the product validation of any requested
  item fails (whatever the reason), \<open>CreateOrder\<close> returns an error, the tables are as
  before and no statement has been sent to the database. Whenever \<open>CreateOrder\<close> returns
  an error, also one of the database in the middle of the inserts, the tables are as
  before. Whenever it returns an order, the user and every item have been validated, and
  the order row and the rows of all requested items have been added: the rows saved
  together with the order, one for each item, and then the rows of the returned items,
  again one for each.
\<close>

theorem create_order_all_or_nothing:
  "(GetUserByID e (user_calls w) (sint (word_of_nat (req_UserID req) :: 32 word)) \<noteq> None
      \<or> (\<exists>k<length (req_Items req).
            \<forall>p. product_reply e w k (req_Items req ! k) \<noteq> Inr (Some p))
     \<longrightarrow> (\<exists>err w'. OrderUsecase_CreateOrder e req w = (Inl err, w')
            \<and> orders w' = orders w \<and> order_items w' = order_items w
            \<and> statements w' = statements w))
   \<and> (\<forall>err w'. OrderUsecase_CreateOrder e req w = (Inl err, w')
          \<longrightarrow> orders w' = orders w \<and> order_items w' = order_items w)
   \<and> (\<forall>ord w'. OrderUsecase_CreateOrder e req w = (Inr ord, w')
          \<longrightarrow> orders w' = orders w @ [ord\<lparr>Items := []\<rparr>]
              \<and> (\<exists>saved. order_items w' = order_items w @ saved @ Items ord
                    \<and> length saved = length (req_Items req))
              \<and> length (Items ord) = length (req_Items req)
              \<and> GetUserByID e (user_calls w) (sint (word_of_nat (req_UserID req) :: 32 word)) = None
              \<and> (\<forall>k<length (req_Items req).
                    \<exists>p. product_reply e w k (req_Items req ! k) = Inr (Some p)))
   \<and> (\<forall>order err w'. OrderRepository_CreateOrder e order w = (Inl err, w')
          \<longrightarrow> orders w' = orders w \<and> order_items w' = order_items w)"
proof (intro conjI allI impI)
  assume "GetUserByID e (user_calls w) (sint (word_of_nat (req_UserID req) :: 32 word)) \<noteq> None
      \<or> (\<exists>k<length (req_Items req).
            \<forall>p. product_reply e w k (req_Items req ! k) \<noteq> Inr (Some p))"
  then show "\<exists>err w'. OrderUsecase_CreateOrder e req w = (Inl err, w')
            \<and> orders w' = orders w \<and> order_items w' = order_items w
            \<and> statements w' = statements w"
    by (rule CreateOrder_validation_fails)
next
  fix err w' assume a: "OrderUsecase_CreateOrder e req w = (Inl err, w')"
  from CreateOrder_Inl_rows [OF a] show "orders w' = orders w" "order_items w' = order_items w"
    by simp_all
next
  fix ord w' assume a: "OrderUsecase_CreateOrder e req w = (Inr ord, w')"
  note R = CreateOrder_Inr_rows [OF a]
  from R show "orders w' = orders w @ [ord\<lparr>Items := []\<rparr>]" by simp
  from R show "\<exists>saved. order_items w' = order_items w @ saved @ Items ord
                    \<and> length saved = length (req_Items req)" by simp
  from R show "length (Items ord) = length (req_Items req)" by simp
  from R show "GetUserByID e (user_calls w) (sint (word_of_nat (req_UserID req) :: 32 word)) = None"
    by simp
  fix k assume "k < length (req_Items req)"
  with R show "\<exists>p. product_reply e w k (req_Items req ! k) = Inr (Some p)" by blast
next
  fix order err w' assume a: "OrderRepository_CreateOrder e order w = (Inl err, w')"
  from OrderRepository_CreateOrder_Inl [OF a]
  show "orders w' = orders w" "order_items w' = order_items w" by simp_all
qed

theorem create_order_all_or_nothing_witness:
  "(\<exists>err w'. OrderUsecase_CreateOrder example_env_notfound example_req2 example_world = (Inl err, w')
       \<and> orders w' = [] \<and> order_items w' = [] \<and> statements w' = 0)
   \<and> (\<exists>w'. OrderUsecase_CreateOrder example_env_dbfault example_req2 example_world = (Inl DBErr, w')
         \<and> statements w' = 2 \<and> orders w' = [] \<and> order_items w' = [])
   \<and> (\<exists>ord w'. OrderUsecase_CreateOrder example_env example_req2 example_world = (Inr ord, w')
         \<and> length (orders w') = 1 \<and> length (order_items w') = 4)"
proof (intro conjI)
  note T1 = create_order_all_or_nothing [of example_env_notfound example_world example_req2]
  have "\<exists>k<length (req_Items example_req2).
          \<forall>p. product_reply example_env_notfound example_world k (req_Items example_req2 ! k)
                \<noteq> Inr (Some p)"
    by (rule exI [of _ 1]) (simp add: example_defs product_reply_def)
  with T1 have "\<exists>err w'. OrderUsecase_CreateOrder example_env_notfound example_req2 example_world
                   = (Inl err, w')
       \<and> orders w' = orders example_world \<and> order_items w' = order_items example_world
       \<and> statements w' = statements example_world"
    by blast
  then show "\<exists>err w'. OrderUsecase_CreateOrder example_env_notfound example_req2 example_world
                  = (Inl err, w')
       \<and> orders w' = [] \<and> order_items w' = [] \<and> statements w' = 0"
    by (simp add: example_world_def)
next
  note T2 = create_order_all_or_nothing [of example_env_dbfault example_world example_req2]
  have "\<exists>w'. OrderUsecase_CreateOrder example_env_dbfault example_req2 example_world
               = (Inl DBErr, w') \<and> statements w' = 2"
    by (simp add: example_defs usecase_defs)
  then obtain w' where
    r: "OrderUsecase_CreateOrder example_env_dbfault example_req2 example_world = (Inl DBErr, w')"
    and n: "statements w' = 2" by blast
  from T2 r have "orders w' = orders example_world \<and> order_items w' = order_items example_world"
    by blast
  then have "orders w' = [] \<and> order_items w' = []" by (simp add: example_world_def)
  with r n show "\<exists>w'. OrderUsecase_CreateOrder example_env_dbfault example_req2 example_world
                     = (Inl DBErr, w')
         \<and> statements w' = 2 \<and> orders w' = [] \<and> order_items w' = []"
    by blast
next
  note T3 = create_order_all_or_nothing [of example_env example_world example_req2]
  have "\<exists>ord w'. OrderUsecase_CreateOrder example_env example_req2 example_world = (Inr ord, w')"
    by (simp add: example_defs usecase_defs)
  then obtain ord w' where
    r: "OrderUsecase_CreateOrder example_env example_req2 example_world = (Inr ord, w')" by blast
  from T3 r have "orders w' = orders example_world @ [ord\<lparr>Items := []\<rparr>]
      \<and> (\<exists>saved. order_items w' = order_items example_world @ saved @ Items ord
            \<and> length saved = length (req_Items example_req2))
      \<and> length (Items ord) = length (req_Items example_req2)"
    by blast
  then have "length (orders w') = 1 \<and> length (order_items w') = 4"
    by (auto simp: example_world_def example_req2_def)
  with r show "\<exists>ord w'. OrderUsecase_CreateOrder example_env example_req2 example_world
                   = (Inr ord, w')
         \<and> length (orders w') = 1 \<and> length (order_items w') = 4"
    by blast
qed

section \<open>Negative shipping cost and discount\<close>

lemma calculateOrderTotal_nonneg: "0 \<le> calculateOrderTotal itemsTotal shippingCost discount"
  by (simp add: calculateOrderTotal_max)

lemma handler_rejects_negative:
  "req_ShippingCost req < 0 \<or> req_Discount req < 0 \<Longrightarrow>
     OrderGRPCHandler_CreateOrder e req w = (Inl ValidationErr, w)"
  by (auto simp: OrderGRPCHandler_CreateOrder_def validate_CreateOrderRequest_def)

text \<open>
  Claim C3, amended. A negative shipping cost or discount counts as zero in the total:
  the total is the one computed with zero in its place, and it is never negative. The use
  case accepts such a request and completes when the validations and the inserts succeed.
  The gRPC handler does not: its request validation (\<^verbatim>\<open>gte=0\<close> on both fields) refuses
  the request before the use case is called.
\<close>

theorem negative_amounts_count_as_zero:
  "calculateOrderTotal itemsTotal shippingCost discount
     = calculateOrderTotal itemsTotal (max 0 shippingCost) (max 0 discount)
   \<and> 0 \<le> calculateOrderTotal itemsTotal shippingCost discount
   \<and> (shippingCost < 0 \<longrightarrow>
        calculateOrderTotal itemsTotal shippingCost discount
          = calculateOrderTotal itemsTotal 0 discount)
   \<and> (discount < 0 \<longrightarrow>
        calculateOrderTotal itemsTotal shippingCost discount
          = calculateOrderTotal itemsTotal shippingCost 0)
   \<and> (GetUserByID e (user_calls w) (sint (word_of_nat (req_UserID req) :: 32 word)) = None
        \<and> length ps = length (req_Items req)
        \<and> (\<forall>k<length (req_Items req).
              product_reply e w k (req_Items req ! k) = Inr (Some (ps ! k)))
        \<and> (\<forall>k\<le>length (req_Items req). \<not> db_fails e (statements w + k))
      \<longrightarrow> (\<exists>ord w'. OrderUsecase_CreateOrder e req w = (Inr ord, w')
             \<and> Total ord =
                 calculateOrderTotal
                   (sum_list (map2 (\<lambda>p i. Price p * real_of_int (in_Quantity i)) ps (req_Items req)))
                   (max 0 (req_ShippingCost req)) (max 0 (req_Discount req))))
   \<and> (req_ShippingCost req < 0 \<or> req_Discount req < 0 \<longrightarrow>
        OrderGRPCHandler_CreateOrder e req w = (Inl ValidationErr, w))"
proof (intro conjI impI)
  show "calculateOrderTotal itemsTotal shippingCost discount
     = calculateOrderTotal itemsTotal (max 0 shippingCost) (max 0 discount)"
    by (simp add: calculateOrderTotal_max)
  show "0 \<le> calculateOrderTotal itemsTotal shippingCost discount"
    by (rule calculateOrderTotal_nonneg)
  show "calculateOrderTotal itemsTotal shippingCost discount
          = calculateOrderTotal itemsTotal 0 discount" if "shippingCost < 0"
    using that by (simp add: calculateOrderTotal_max)
  show "calculateOrderTotal itemsTotal shippingCost discount
          = calculateOrderTotal itemsTotal shippingCost 0" if "discount < 0"
    using that by (simp add: calculateOrderTotal_max)
  show "OrderGRPCHandler_CreateOrder e req w = (Inl ValidationErr, w)"
    if "req_ShippingCost req < 0 \<or> req_Discount req < 0"
    using that by (rule handler_rejects_negative)
next
  assume a: "GetUserByID e (user_calls w) (sint (word_of_nat (req_UserID req) :: 32 word)) = None
        \<and> length ps = length (req_Items req)
        \<and> (\<forall>k<length (req_Items req).
              product_reply e w k (req_Items req ! k) = Inr (Some (ps ! k)))
        \<and> (\<forall>k\<le>length (req_Items req). \<not> db_fails e (statements w + k))"
  then have 1: "GetUserByID e (user_calls w) (sint (word_of_nat (req_UserID req) :: 32 word)) = None"
    and 2: "length ps = length (req_Items req)"
    and 3: "\<forall>k<length (req_Items req). product_reply e w k (req_Items req ! k) = Inr (Some (ps ! k))"
    and 4: "\<forall>k\<le>length (req_Items req). \<not> db_fails e (statements w + k)"
    by simp_all
  from OrderUsecase_CreateOrder_ok [OF 1 2 3 4] obtain ord w' where
    r: "OrderUsecase_CreateOrder e req w = (Inr ord, w')"
    and t: "Total ord =
      max 0 (sum_list (map2 (\<lambda>p i. Price p * real_of_int (in_Quantity i)) ps (req_Items req))
             + max 0 (req_ShippingCost req) - max 0 (req_Discount req))"
    by blast
  from t have "Total ord =
                 calculateOrderTotal
                   (sum_list (map2 (\<lambda>p i. Price p * real_of_int (in_Quantity i)) ps (req_Items req)))
                   (max 0 (req_ShippingCost req)) (max 0 (req_Discount req))"
    by (simp add: calculateOrderTotal_max)
  with r show "\<exists>ord w'. OrderUsecase_CreateOrder e req w = (Inr ord, w')
             \<and> Total ord =
                 calculateOrderTotal
                   (sum_list (map2 (\<lambda>p i. Price p * real_of_int (in_Quantity i)) ps (req_Items req)))
                   (max 0 (req_ShippingCost req)) (max 0 (req_Discount req))"
    by blast
qed

theorem negative_amounts_count_as_zero_witness:
  "calculateOrderTotal 40 (- 10) 5 = calculateOrderTotal 40 0 5
   \<and> calculateOrderTotal 40 10 (- 5) = calculateOrderTotal 40 10 0
   \<and> (\<exists>ord w'. OrderUsecase_CreateOrder example_env example_req_negship example_world = (Inr ord, w')
         \<and> Total ord = 35)
   \<and> OrderGRPCHandler_CreateOrder example_env example_req_negship example_world
        = (Inl ValidationErr, example_world)"
proof (intro conjI)
  note T = negative_amounts_count_as_zero
    [of 40 "- 10" 5 example_env example_world example_req_negship "[\<lparr>Price = 20\<rparr>]"]
  from T show "calculateOrderTotal 40 (- 10) 5 = calculateOrderTotal 40 0 5" by simp
  from negative_amounts_count_as_zero [of 40 10 "- 5"]
  show "calculateOrderTotal 40 10 (- 5) = calculateOrderTotal 40 10 0" by simp
  have h: "GetUserByID example_env (user_calls example_world)
             (sint (word_of_nat (req_UserID example_req_negship) :: 32 word)) = None
        \<and> length [\<lparr>Price = 20\<rparr>] = length (req_Items example_req_negship)
        \<and> (\<forall>k<length (req_Items example_req_negship).
              product_reply example_env example_world k (req_Items example_req_negship ! k)
                = Inr (Some ([\<lparr>Price = 20\<rparr>] ! k)))
        \<and> (\<forall>k\<le>length (req_Items example_req_negship).
              \<not> db_fails example_env (statements example_world + k))"
    by (simp add: example_req_negship_def example_req_def example_env_def product_reply_def)
  with T obtain ord w' where
    r: "OrderUsecase_CreateOrder example_env example_req_negship example_world = (Inr ord, w')"
    and t: "Total ord =
              calculateOrderTotal
                (sum_list (map2 (\<lambda>p i. Price p * real_of_int (in_Quantity i)) [\<lparr>Price = 20\<rparr>]
                             (req_Items example_req_negship)))
                (max 0 (req_ShippingCost example_req_negship))
                (max 0 (req_Discount example_req_negship))"
    by blast
  from t have "Total ord = 35"
    by (simp add: example_req_negship_def example_req_def calculateOrderTotal_max)
  with r show "\<exists>ord w'. OrderUsecase_CreateOrder example_env example_req_negship example_world
                  = (Inr ord, w') \<and> Total ord = 35"
    by blast
  have "req_ShippingCost example_req_negship < 0"
    by (simp add: example_req_negship_def example_req_def)
  with T show "OrderGRPCHandler_CreateOrder example_env example_req_negship example_world
        = (Inl ValidationErr, example_world)"
    by blast
qed

text \<open>
  The statement that \<open>CreateOrder\<close> accepts a request with a negative shipping cost does not
  hold of the handler: it answers with the validation error and changes nothing.
\<close>

theorem negative_shipping_rejected_counterexample:
  "OrderGRPCHandler_CreateOrder example_env example_req_negship example_world
     = (Inl ValidationErr, example_world)
   \<and> req_ShippingCost example_req_negship < 0"
  by (simp add: OrderGRPCHandler_CreateOrder_def validate_CreateOrderRequest_def
      example_req_negship_def example_req_def)

section \<open>Removing an item that is not the order's\<close>

lemma OrderRepository_RemoveOrderItem_no_match:
  "filter (\<lambda>i. ItemID i = itemID \<and> OrderID i = orderID) (order_items w) = [] \<Longrightarrow>
   OrderRepository_RemoveOrderItem e orderID itemID w =
     (Some (if db_fails e (statements w) then DBErr else ErrOrderItemNotFound),
      w\<lparr>statements := statements w + 1\<rparr>)"
  by (simp add: OrderRepository_RemoveOrderItem_def db_exec_def)

text \<open>
  Claim C9. When no stored item has both the given item id and the given order id (the
  item may exist under another order), \<open>RemoveOrderItem\<close> returns the item-not-found
  error, or the database's error if the delete statement itself failed. The state after
  the call is the state before it with one more statement counted: no item row is
  deleted, no order row is touched, and no statement that writes a total is sent.
\<close>

theorem remove_item_not_found:
  "filter (\<lambda>i. ItemID i = itemID \<and> OrderID i = orderID) (order_items w) = [] \<Longrightarrow>
   OrderUsecase_RemoveOrderItem e orderID itemID w =
     (Inl (if db_fails e (statements w) then DBErr else ErrOrderItemNotFound),
      w\<lparr>statements := statements w + 1\<rparr>)"
  by (simp add: OrderUsecase_RemoveOrderItem_def OrderRepository_RemoveOrderItem_no_match)

theorem remove_item_not_found_witness:
  "filter (\<lambda>i. ItemID i = 2 \<and> OrderID i = 1) (order_items example_world2) = []
   \<and> OrderUsecase_RemoveOrderItem example_env 1 2 example_world2
       = (Inl ErrOrderItemNotFound, example_world2\<lparr>statements := 1\<rparr>)
   \<and> load_order 1 (snd (OrderUsecase_RemoveOrderItem example_env 1 2 example_world2))
       = load_order 1 example_world2"
proof -
  have h: "filter (\<lambda>i. ItemID i = 2 \<and> OrderID i = 1) (order_items example_world2) = []"
    by (simp add: example_world2_def)
  from remove_item_not_found [OF h, of example_env]
  have r: "OrderUsecase_RemoveOrderItem example_env 1 2 example_world2
       = (Inl ErrOrderItemNotFound, example_world2\<lparr>statements := 1\<rparr>)"
    by (simp add: example_env_def example_world2_def)
  have l: "load_order 1 (example_world2\<lparr>statements := 1\<rparr>) = load_order 1 example_world2"
    by (simp add: load_order_def split: option.splits)
  show ?thesis
    apply (intro conjI)
      apply (rule h)
     apply (rule r)
    apply (simp only: r snd_conv l)
    done
qed

section \<open>A successful reply without a product\<close>

lemma ensureProductExists_empty:
  "GetProductByID e (product_calls w) (sint (word_of_nat pid :: 64 word)) = Inr None \<Longrightarrow>
   ensureProductExists e pid w =
     (Inl (Errorf ''product not found: empty response''),
      w\<lparr>product_calls := product_calls w + 1\<rparr>)"
  by (simp add: ensureProductExists_def)

lemma CreateOrder_loop_empty:
  "k < length inps \<Longrightarrow>
   \<forall>j<k. \<exists>p. product_reply e w j (inps ! j) = Inr (Some p) \<Longrightarrow>
   product_reply e w k (inps ! k) = Inr None \<Longrightarrow>
   \<exists>w'. CreateOrder_loop e inps items tot w
           = (Inl (Errorf ''product not found: empty response''), w')"
proof (induction inps arbitrary: k items tot w)
  case Nil
  then show ?case by simp
next
  case (Cons inp inps)
  show ?case
  proof (cases k)
    case 0
    with Cons.prems(3) have
      "GetProductByID e (product_calls w) (sint (word_of_nat (in_ProductID inp) :: 64 word)) = Inr None"
      by (simp add: product_reply_def)
    from ensureProductExists_empty [OF this] show ?thesis by simp
  next
    case (Suc k')
    with Cons.prems(2) obtain p where "product_reply e w 0 ((inp # inps) ! 0) = Inr (Some p)"
      by blast
    then have e1: "ensureProductExists e (in_ProductID inp) w
                     = (Inr p, w\<lparr>product_calls := product_calls w + 1\<rparr>)"
      by (simp add: product_reply_def ensureProductExists_def)
    let ?w1 = "w\<lparr>product_calls := product_calls w + 1\<rparr>"
    have k': "k' < length inps" using Cons.prems(1) Suc by simp
    have pre: "\<forall>j<k'. \<exists>p. product_reply e ?w1 j (inps ! j) = Inr (Some p)"
    proof (intro allI impI)
      fix j assume "j < k'"
      then have "Suc j < k" using Suc by simp
      with Cons.prems(2) obtain q where "product_reply e w (Suc j) ((inp # inps) ! Suc j) = Inr (Some q)"
        by blast
      then show "\<exists>p. product_reply e ?w1 j (inps ! j) = Inr (Some p)"
        by (simp add: product_reply_def)
    qed
    have at: "product_reply e ?w1 k' (inps ! k') = Inr None"
      using Cons.prems(3) Suc by (simp add: product_reply_def)
    from Cons.IH [OF k' pre at] e1 show ?thesis by (simp add: Let_def)
  qed
qed

lemma CreateOrder_empty_product:
  assumes user: "GetUserByID e (user_calls w) (sint (word_of_nat (req_UserID req) :: 32 word)) = None"
    and k: "k < length (req_Items req)"
    and before: "\<forall>j<k. \<exists>p. product_reply e w j (req_Items req ! j) = Inr (Some p)"
    and at: "product_reply e w k (req_Items req ! k) = Inr None"
  shows "\<exists>w'. OrderUsecase_CreateOrder e req w
                 = (Inl (Errorf ''product not found: empty response''), w')
           \<and> orders w' = orders w \<and> order_items w' = order_items w
           \<and> statements w' = statements w"
proof -
  let ?w1 = "w\<lparr>user_calls := user_calls w + 1\<rparr>"
  have u: "ensureUserExists e (req_UserID req) w = (None, ?w1)"
    using user by (simp add: ensureUserExists_def)
  have b: "\<forall>j<k. \<exists>p. product_reply e ?w1 j (req_Items req ! j) = Inr (Some p)"
    using before by (simp add: product_reply_def)
  have a: "product_reply e ?w1 k (req_Items req ! k) = Inr None"
    using at by (simp add: product_reply_def)
  from CreateOrder_loop_empty [OF k b a] obtain w' where
    l: "CreateOrder_loop e (req_Items req) [] 0 ?w1
          = (Inl (Errorf ''product not found: empty response''), w')" by blast
  from CreateOrder_loop_world [OF l] have
    "orders w' = orders w \<and> order_items w' = order_items w \<and> statements w' = statements w"
    by simp
  moreover have "OrderUsecase_CreateOrder e req w
                   = (Inl (Errorf ''product not found: empty response''), w')"
    using u l by (simp add: OrderUsecase_CreateOrder_def)
  ultimately show ?thesis by blast
qed

lemma AddOrderItem_empty_product:
  "GetProductByID e (product_calls w) (sint (word_of_nat (add_ProductID req) :: 64 word)) = Inr None
   \<Longrightarrow> OrderUsecase_AddOrderItem e req w =
     (Inl (Errorf ''product not found: empty response''),
      w\<lparr>product_calls := product_calls w + 1\<rparr>)"
  by (simp add: OrderUsecase_AddOrderItem_def ensureProductExists_empty)

text \<open>
  Claim C10. When the product service answers a lookup without an error but with no
  product in the response, the validation fails with the error
  "product not found: empty response". \<open>CreateOrder\<close> (the user and the items before the
  empty one being valid) and \<open>AddOrderItem\<close> return this error; no statement has been sent
  to the database and the tables are as before. For the breaker the call is a success: a
  nil error is not a breaker failure, and the interceptor does not raise the failure
  counter for it.
\<close>

theorem empty_product_is_validation_failure:
  "(GetUserByID e (user_calls w) (sint (word_of_nat (req_UserID req) :: 32 word)) = None
      \<and> k < length (req_Items req)
      \<and> (\<forall>j<k. \<exists>p. product_reply e w j (req_Items req ! j) = Inr (Some p))
      \<and> product_reply e w k (req_Items req ! k) = Inr None
     \<longrightarrow> (\<exists>w'. OrderUsecase_CreateOrder e req w
                   = (Inl (Errorf ''product not found: empty response''), w')
            \<and> orders w' = orders w \<and> order_items w' = order_items w
            \<and> statements w' = statements w))
   \<and> (GetProductByID e (product_calls w) (sint (word_of_nat (add_ProductID add) :: 64 word)) = Inr None
     \<longrightarrow> OrderUsecase_AddOrderItem e add w =
           (Inl (Errorf ''product not found: empty response''),
            w\<lparr>product_calls := product_calls w + 1\<rparr>))
   \<and> isBreakerFailure None = False
   \<and> IsSuccessful None = True
   \<and> failures (snd (snd (CircuitBreakerUnaryClientInterceptor cfg now (\<lambda>x. (None, x)) (x, s))))
         \<le> failures s"
proof (intro conjI impI)
  assume a: "GetUserByID e (user_calls w) (sint (word_of_nat (req_UserID req) :: 32 word)) = None
      \<and> k < length (req_Items req)
      \<and> (\<forall>j<k. \<exists>p. product_reply e w j (req_Items req ! j) = Inr (Some p))
      \<and> product_reply e w k (req_Items req ! k) = Inr None"
  then have 1: "GetUserByID e (user_calls w) (sint (word_of_nat (req_UserID req) :: 32 word)) = None"
    and 2: "k < length (req_Items req)"
    and 3: "\<forall>j<k. \<exists>p. product_reply e w j (req_Items req ! j) = Inr (Some p)"
    and 4: "product_reply e w k (req_Items req ! k) = Inr None"
    by simp_all
  show "\<exists>w'. OrderUsecase_CreateOrder e req w
                   = (Inl (Errorf ''product not found: empty response''), w')
            \<and> orders w' = orders w \<and> order_items w' = order_items w
            \<and> statements w' = statements w"
    by (rule CreateOrder_empty_product [OF 1 2 3 4])
next
  assume "GetProductByID e (product_calls w) (sint (word_of_nat (add_ProductID add) :: 64 word)) = Inr None"
  then show "OrderUsecase_AddOrderItem e add w =
           (Inl (Errorf ''product not found: empty response''),
            w\<lparr>product_calls := product_calls w + 1\<rparr>)"
    by (rule AddOrderItem_empty_product)
next
  show "isBreakerFailure None = False" by (rule isBreakerFailure_nil)
  show "IsSuccessful None = True" by (simp add: IsSuccessful_def isBreakerFailure_nil)
  show "failures (snd (snd (CircuitBreakerUnaryClientInterceptor cfg now (\<lambda>x. (None, x)) (x, s))))
         \<le> failures s"
  proof (cases "Enabled cfg")
    case True
    then show ?thesis
      using Execute_failures [of cfg now "\<lambda>x. (None, x)" x s]
      by (simp add: CircuitBreakerUnaryClientInterceptor_def isBreakerFailure_nil)
  next
    case False
    then show ?thesis by (simp add: CircuitBreakerUnaryClientInterceptor_def)
  qed
qed

theorem empty_product_is_validation_failure_witness:
  "(\<exists>w'. OrderUsecase_CreateOrder example_env_empty example_req example_world
            = (Inl (Errorf ''product not found: empty response''), w')
       \<and> orders w' = [] \<and> order_items w' = [] \<and> statements w' = 0)
   \<and> OrderUsecase_AddOrderItem example_env_empty example_add example_world2
       = (Inl (Errorf ''product not found: empty response''), example_world2\<lparr>product_calls := 1\<rparr>)"
proof (intro conjI)
  note T = empty_product_is_validation_failure
    [of example_env_empty example_world example_req 0, THEN conjunct1, rule_format]
  have h: "GetUserByID example_env_empty (user_calls example_world)
          (sint (word_of_nat (req_UserID example_req) :: 32 word)) = None
      \<and> 0 < length (req_Items example_req)
      \<and> (\<forall>j<0. \<exists>p. product_reply example_env_empty example_world j (req_Items example_req ! j)
                      = Inr (Some p))
      \<and> product_reply example_env_empty example_world 0 (req_Items example_req ! 0) = Inr None"
    by (simp add: example_defs product_reply_def)
  from T [OF h] show "\<exists>w'. OrderUsecase_CreateOrder example_env_empty example_req example_world
            = (Inl (Errorf ''product not found: empty response''), w')
       \<and> orders w' = [] \<and> order_items w' = [] \<and> statements w' = 0"
    by (simp add: example_world_def)
next
  note T = empty_product_is_validation_failure
    [of example_env_empty example_world2 _ _ example_add, THEN conjunct2, THEN conjunct1,
     rule_format]
  have h: "GetProductByID example_env_empty (product_calls example_world2)
          (sint (word_of_nat (add_ProductID example_add) :: 64 word)) = Inr None"
    by (simp add: example_defs)
  from T [OF h] show "OrderUsecase_AddOrderItem example_env_empty example_add example_world2
       = (Inl (Errorf ''product not found: empty response''), example_world2\<lparr>product_calls := 1\<rparr>)"
    by (simp add: example_world2_def)
qed

section \<open>Errors of the validators\<close>

lemma ensureUserExists_error:
  "GetUserByID e (user_calls w) (sint (word_of_nat uid :: 32 word)) = Some err \<Longrightarrow>
   ensureUserExists e uid w =
     (Some (Wrapf ''user not found: '' err), w\<lparr>user_calls := user_calls w + 1\<rparr>)"
  by (simp add: ensureUserExists_def)

lemma ensureProductExists_error:
  "GetProductByID e (product_calls w) (sint (word_of_nat pid :: 64 word)) = Inl err \<Longrightarrow>
   ensureProductExists e pid w =
     (Inl (Wrapf ''product not found: '' err), w\<lparr>product_calls := product_calls w + 1\<rparr>)"
  by (simp add: ensureProductExists_def)

lemma ensureUserExists_one_call:
  "user_calls (snd (ensureUserExists e uid w)) = user_calls w + 1
   \<and> product_calls (snd (ensureUserExists e uid w)) = product_calls w"
  by (simp add: ensureUserExists_def split: option.splits)

lemma ensureProductExists_one_call:
  "product_calls (snd (ensureProductExists e pid w)) = product_calls w + 1
   \<and> user_calls (snd (ensureProductExists e pid w)) = user_calls w"
  by (simp add: ensureProductExists_def split: sum.splits option.splits)

text \<open>
  Claim C8, amended. A validator makes one call to its client. When the call ends in an
  error, be it the breaker's rejection or an error of the remote service, the validator
  returns that error wrapped with the prefix "user not found: " or
  "product not found: "; the wrapped error is the client's, so a rejection and a
  remote failure stay apart.
\<close>

theorem validators_wrap_errors:
  "(GetUserByID e (user_calls w) (sint (word_of_nat uid :: 32 word)) = Some err \<longrightarrow>
      ensureUserExists e uid w =
        (Some (Wrapf ''user not found: '' err), w\<lparr>user_calls := user_calls w + 1\<rparr>))
   \<and> (GetProductByID e (product_calls w) (sint (word_of_nat pid :: 64 word)) = Inl err \<longrightarrow>
      ensureProductExists e pid w =
        (Inl (Wrapf ''product not found: '' err), w\<lparr>product_calls := product_calls w + 1\<rparr>))
   \<and> Unwrap (Wrapf p err) = Some err
   \<and> Wrapf p BreakerRejected \<noteq> Wrapf p (Remote r)
   \<and> user_calls (snd (ensureUserExists e uid w)) = user_calls w + 1
   \<and> product_calls (snd (ensureProductExists e pid w)) = product_calls w + 1"
  using ensureUserExists_error [of e w uid err] ensureProductExists_error [of e w pid err]
    ensureUserExists_one_call [of e uid w] ensureProductExists_one_call [of e pid w]
  by simp

theorem validators_wrap_errors_witness:
  "ensureUserExists example_env_rejected 1 example_world
     = (Some (Wrapf ''user not found: '' BreakerRejected), example_world\<lparr>user_calls := 1\<rparr>)
   \<and> ensureProductExists example_env_notfound 8 (example_world\<lparr>product_calls := 1\<rparr>)
     = (Inl (Wrapf ''product not found: '' (Remote (StatusErr NotFound ''product not found''))),
        example_world\<lparr>product_calls := 2\<rparr>)"
proof (intro conjI)
  note T = validators_wrap_errors
    [of example_env_rejected example_world 1 BreakerRejected, THEN conjunct1, rule_format]
  have h: "GetUserByID example_env_rejected (user_calls example_world)
             (sint (word_of_nat 1 :: 32 word)) = Some BreakerRejected"
    by (simp add: example_defs)
  from T [OF h] show "ensureUserExists example_env_rejected 1 example_world
     = (Some (Wrapf ''user not found: '' BreakerRejected), example_world\<lparr>user_calls := 1\<rparr>)"
    by (simp add: example_world_def)
next
  note T = validators_wrap_errors
    [of example_env_notfound "example_world\<lparr>product_calls := 1\<rparr>" _
        "Remote (StatusErr NotFound ''product not found'')" 8,
     THEN conjunct2, THEN conjunct1, rule_format]
  have h: "GetProductByID example_env_notfound (product_calls (example_world\<lparr>product_calls := 1\<rparr>))
             (sint (word_of_nat 8 :: 64 word))
           = Inl (Remote (StatusErr NotFound ''product not found''))"
    by (simp add: example_defs)
  from T [OF h] show "ensureProductExists example_env_notfound 8 (example_world\<lparr>product_calls := 1\<rparr>)
     = (Inl (Wrapf ''product not found: '' (Remote (StatusErr NotFound ''product not found''))),
        example_world\<lparr>product_calls := 2\<rparr>)"
    by (simp add: example_world_def)
qed

text \<open>
  The validator does not hand the client's error on as it is: for a rejected call it
  returns the wrapping error, which is not the rejection itself.
\<close>

theorem validator_changes_error_counterexample:
  "GetUserByID example_env_rejected (user_calls example_world) (sint (word_of_nat 1 :: 32 word))
     = Some BreakerRejected
   \<and> fst (ensureUserExists example_env_rejected 1 example_world) \<noteq> Some BreakerRejected
   \<and> fst (ensureUserExists example_env_rejected 1 example_world)
       = Some (Wrapf ''user not found: '' BreakerRejected)"
  by (simp add: example_defs ensureUserExists_def)

section \<open>The stored total after a mutation\<close>

lemma sumItemsTotal_sum: "sumItemsTotal items = sum_list (map item_amount items)"
  by (simp add: sumItemsTotal_def sumItemsTotal_from_sum item_amount_def [abs_def])

lemma find_update_total:
  "find (\<lambda>ord. ID ord = oid) (map (\<lambda>ord. if ID ord = oid then ord\<lparr>Total := t\<rparr> else ord) xs)
     = map_option (\<lambda>ord. ord\<lparr>Total := t\<rparr>) (find (\<lambda>ord. ID ord = oid) xs)"
  by (induction xs) simp_all

lemma find_Some_ID: "find (\<lambda>ord. ID ord = oid) xs = Some x \<Longrightarrow> ID x = oid"
  by (induction xs) (auto split: if_splits)

lemma load_order_ID: "load_order oid w = Some ord \<Longrightarrow> ID ord = oid"
  by (auto simp: load_order_def split: option.splits dest: find_Some_ID)

lemma load_order_statements [simp]:
  "load_order oid (w\<lparr>statements := n\<rparr>) = load_order oid w"
  by (simp add: load_order_def split: option.splits)

lemma GetOrderByID_Inr:
  "OrderRepository_GetOrderByID e oid w = (Inr order0, w1) \<Longrightarrow>
     w1 = w\<lparr>statements := statements w + 1\<rparr> \<and> load_order oid w = Some order0"
  by (auto simp: OrderRepository_GetOrderByID_def db_exec_def split: option.splits if_splits bool.splits)

lemma UpdateOrderTotal_None:
  "OrderRepository_UpdateOrderTotal e oid t w = (None, w') \<Longrightarrow>
     w' = w\<lparr>statements := statements w + 1,
            orders := map (\<lambda>ord. if ID ord = oid then ord\<lparr>Total := t\<rparr> else ord) (orders w)\<rparr>"
  by (auto simp: OrderRepository_UpdateOrderTotal_def db_exec_def split: if_splits bool.splits)

lemma recomputeTotal_Inr:
  assumes "recomputeTotal e oid w = (Inr ord, w')"
  shows "load_order oid w' = Some ord"
    and "Total ord = calculateOrderTotal (sumItemsTotal (Items ord)) (ShippingCost ord) (Discount ord)"
    and "order_items w' = order_items w"
proof -
  obtain r1 w1 where g: "OrderRepository_GetOrderByID e oid w = (r1, w1)"
    by (cases "OrderRepository_GetOrderByID e oid w")
  from assms g obtain order0 where r1: "r1 = Inr order0"
    by (cases r1) (auto simp: recomputeTotal_def)
  note G = GetOrderByID_Inr [OF g [unfolded r1]]
  from G have id0: "ID order0 = oid" by (auto dest: load_order_ID)
  let ?t = "calculateOrderTotal (sumItemsTotal (Items order0)) (ShippingCost order0) (Discount order0)"
  obtain r2 w2 where u: "OrderRepository_UpdateOrderTotal e oid ?t w1 = (r2, w2)"
    by (cases "OrderRepository_UpdateOrderTotal e oid ?t w1")
  from assms g r1 u id0 have r2: "r2 = None" and ord: "ord = order0\<lparr>Total := ?t\<rparr>" and w2: "w2 = w'"
    by (cases r2; simp add: recomputeTotal_def Let_def)+
  note U = UpdateOrderTotal_None [OF u [unfolded r2 w2]]
  from G obtain row where f: "find (\<lambda>ord. ID ord = oid) (orders w) = Some row"
    and o0: "order0 = row\<lparr>Items := filter (\<lambda>i. OrderID i = oid) (order_items w)\<rparr>"
    by (auto simp: load_order_def split: option.splits)
  have ow': "orders w' = map (\<lambda>ord. if ID ord = oid then ord\<lparr>Total := ?t\<rparr> else ord) (orders w)"
    and iw': "order_items w' = order_items w"
    using U G by simp_all
  show "load_order oid w' = Some ord"
    using f o0 ord by (simp add: load_order_def ow' iw' find_update_total)
  show "Total ord = calculateOrderTotal (sumItemsTotal (Items ord)) (ShippingCost ord) (Discount ord)"
    using ord by simp
  show "order_items w' = order_items w" by (rule iw')
qed

lemma recomputeTotal_invariant:
  assumes "recomputeTotal e oid w = (Inr ord, w')"
    and "0 \<le> ShippingCost ord" "0 \<le> Discount ord"
  shows "total_invariant oid w' \<and> load_order oid w' = Some ord"
  using recomputeTotal_Inr [OF assms(1)] assms(2,3)
  by (simp add: total_invariant_def calculateOrderTotal_max sumItemsTotal_sum max_def)

lemma AddOrderItem_invariant:
  assumes "OrderUsecase_AddOrderItem e add w = (Inr ord, w')"
    and "0 \<le> ShippingCost ord" "0 \<le> Discount ord"
  shows "total_invariant (add_OrderID add) w' \<and> load_order (add_OrderID add) w' = Some ord"
proof -
  from assms(1) obtain w2 where "recomputeTotal e (add_OrderID add) w2 = (Inr ord, w')"
    by (auto simp: OrderUsecase_AddOrderItem_def Let_def split: prod.splits sum.splits option.splits)
  then show ?thesis using assms(2,3) by (rule recomputeTotal_invariant)
qed

lemma RemoveOrderItem_invariant:
  assumes "OrderUsecase_RemoveOrderItem e orderID itemID w = (Inr ord, w')"
    and "0 \<le> ShippingCost ord" "0 \<le> Discount ord"
  shows "total_invariant orderID w' \<and> load_order orderID w' = Some ord"
proof -
  from assms(1) obtain w2 where "recomputeTotal e orderID w2 = (Inr ord, w')"
    by (auto simp: OrderUsecase_RemoveOrderItem_def split: prod.splits option.splits)
  then show ?thesis using assms(2,3) by (rule recomputeTotal_invariant)
qed

text \<open>
  Claim C4. \<open>AddOrderItem\<close> and \<open>RemoveOrderItem\<close> recompute the total from the reloaded
  items and so establish the invariant (the two lemmas above). \<open>CreateOrder\<close> does not:
  for the request of user 1 with shipping cost 10, discount 5 and two units of a product
  that costs 20, sent through the handler, the order is stored with total 45, computed
  from one item of 40, while the table holds that item twice, under the ids 1 and 2. Over
  the stored fields the formula gives 85, and the invariant fails.
\<close>

theorem create_order_total_not_over_stored_items:
  "\<exists>ord w'. OrderGRPCHandler_CreateOrder example_env example_req example_world = (Inr ord, w')
      \<and> load_order (ID ord) w' = Some (ord\<lparr>Items := order_items w'\<rparr>)
      \<and> Total ord = 45 \<and> ShippingCost ord = 10 \<and> Discount ord = 5
      \<and> map ItemID (Items ord) = [2]
      \<and> map ItemID (order_items w') = [1, 2]
      \<and> map OrderID (order_items w') = [ID ord, ID ord]
      \<and> map item_amount (order_items w') = [40, 40]
      \<and> max 0 (sum_list (map item_amount (order_items w')) + ShippingCost ord - Discount ord) = 85
      \<and> \<not> total_invariant (ID ord) w'"
  by (simp add: OrderGRPCHandler_CreateOrder_def validate_CreateOrderRequest_def
      validate_OrderItemInput_def example_defs usecase_defs load_order_def item_amount_def
      total_invariant_def)

section \<open>Tripping the breaker\<close>

lemma interceptor_enabled:
  "Enabled cfg \<Longrightarrow> CircuitBreakerUnaryClientInterceptor cfg now req ws = Execute cfg now req ws"
  by (simp add: CircuitBreakerUnaryClientInterceptor_def)

lemma run_calls_append:
  "run_calls cfg (xs @ ys) ws = run_calls cfg ys (run_calls cfg xs ws)"
  by (induction xs arbitrary: ws) simp_all

lemma currentState_in_window:
  "state s = Closed \<Longrightarrow> now - windowStart s < Interval cfg \<Longrightarrow> currentState cfg now s = s"
  by (simp add: currentState_def)

lemma ReadyToTrip_below:
  "requests s < unat (MinRequests cfg) \<Longrightarrow> ReadyToTrip cfg s = False"
  by (simp add: ReadyToTrip_def)

lemma Execute_closed_below:
  assumes "state s = Closed" "now - windowStart s < Interval cfg"
    "Suc (requests s) < unat (MinRequests cfg)"
  shows "Execute cfg now (\<lambda>n. (err, Suc n)) (n, s) =
           (map_option Remote err, Suc n, countCall (IsSuccessful err) s)"
proof -
  have "ReadyToTrip cfg (countCall (IsSuccessful err) s) = False"
    using assms(3) by (intro ReadyToTrip_below) (simp add: countCall_def)
  then show ?thesis
    using assms(1,2)
    by (simp add: Execute_def currentState_in_window admits_def afterRequest_def Let_def)
qed

lemma countCall_fields:
  "state (countCall ok s) = state s"
  "windowStart (countCall ok s) = windowStart s"
  "requests (countCall ok s) = Suc (requests s)"
  "failures (countCall ok s) = failures s + (if ok then 0 else 1)"
  "openedAt (countCall ok s) = openedAt s"
  by (simp_all add: countCall_def)

lemma run_calls_below:
  assumes "Enabled cfg"
  shows "state s = Closed \<Longrightarrow>
    \<forall>c\<in>set calls. fst c - windowStart s < Interval cfg \<Longrightarrow>
    requests s + length calls < unat (MinRequests cfg) \<Longrightarrow>
    (\<exists>s'. run_calls cfg calls (n, s) = (n + length calls, s')
       \<and> state s' = Closed \<and> windowStart s' = windowStart s
       \<and> requests s' = requests s + length calls
       \<and> failures s' = failures s + length (filter (\<lambda>c. isBreakerFailure (snd c)) calls))"
proof (induction calls arbitrary: n s)
  case Nil
  then show ?case by simp
next
  case (Cons c calls)
  let ?s1 = "countCall (IsSuccessful (snd c)) s"
  have w: "fst c - windowStart s < Interval cfg" using Cons.prems(2) by simp
  have b: "Suc (requests s) < unat (MinRequests cfg)" using Cons.prems(3) by simp
  have step: "CircuitBreakerUnaryClientInterceptor cfg (fst c) (\<lambda>n. (snd c, Suc n)) (n, s)
                = (map_option Remote (snd c), Suc n, ?s1)"
    using Execute_closed_below [OF Cons.prems(1) w b] assms by (simp add: interceptor_enabled)
  have 1: "state ?s1 = Closed" using Cons.prems(1) by (simp add: countCall_fields)
  have 2: "\<forall>c\<in>set calls. fst c - windowStart ?s1 < Interval cfg"
    using Cons.prems(2) by (simp add: countCall_fields)
  have 3: "requests ?s1 + length calls < unat (MinRequests cfg)"
    using Cons.prems(3) by (simp add: countCall_fields)
  from Cons.IH [OF 1 2 3, of "Suc n"] obtain s' where
    r: "run_calls cfg calls (Suc n, ?s1) = (Suc n + length calls, s')"
    and f: "state s' = Closed" "windowStart s' = windowStart ?s1"
      "requests s' = requests ?s1 + length calls"
      "failures s' = failures ?s1 + length (filter (\<lambda>c. isBreakerFailure (snd c)) calls)"
    by blast
  have "run_calls cfg (c # calls) (n, s) = (n + length (c # calls), s')"
    using step r by simp
  moreover have "failures s' = failures s + length (filter (\<lambda>c. isBreakerFailure (snd c)) (c # calls))"
    using f(4) by (simp add: countCall_fields IsSuccessful_def)
  ultimately show ?case
    using f(1,2,3) by (simp add: countCall_fields)
qed

lemma ceiling_ratio:
  assumes "0 < N" "\<lceil>real N * r\<rceil> \<le> int f"
  shows "r \<le> real f / real N"
proof -
  from assms(2) have "real N * r \<le> real f" by (simp add: ceiling_le_iff)
  with assms(1) show ?thesis by (simp add: pos_le_divide_eq mult.commute)
qed

lemma Execute_closed_trip:
  assumes "state s = Closed" "now - windowStart s < Interval cfg"
    "ReadyToTrip cfg (countCall (IsSuccessful err) s)"
  shows "Execute cfg now (\<lambda>n. (err, Suc n)) (n, s) =
           (map_option Remote err, Suc n, toOpen now (countCall (IsSuccessful err) s))"
  using assms
  by (simp add: Execute_def currentState_in_window admits_def afterRequest_def Let_def)

lemma Execute_open_rejects:
  "state s = Open \<Longrightarrow> now - openedAt s < Timeout cfg \<Longrightarrow>
     Execute cfg now req (w, s) = (Some BreakerRejected, w, s)"
  by (simp add: Execute_def currentState_def admits_def)

lemma run_calls_trips:
  assumes en: "Enabled cfg"
    and N: "0 < unat (MinRequests cfg)"
    and len: "length calls = unat (MinRequests cfg)"
    and closed: "state s = Closed" and fresh: "requests s = 0" "failures s = 0"
    and win: "\<forall>c\<in>set calls. fst c - windowStart s < Interval cfg"
    and ratio: "\<lceil>real (unat (MinRequests cfg)) * FailureRatio cfg\<rceil>
                  \<le> int (length (filter (\<lambda>c. isBreakerFailure (snd c)) calls))"
  shows "\<exists>s'. run_calls cfg calls (n, s) = (n + length calls, s')
           \<and> state s' = Open \<and> openedAt s' = fst (last calls)"
proof -
  from N len have ne: "calls \<noteq> []" by auto
  define pre c where "pre = butlast calls" and "c = last calls"
  have calls: "calls = pre @ [c]" using ne by (simp add: pre_def c_def)
  have lp: "requests s + length pre < unat (MinRequests cfg)"
    using len fresh calls by simp
  have wp: "\<forall>c\<in>set pre. fst c - windowStart s < Interval cfg" using win calls by simp
  from run_calls_below [OF en closed wp lp, of n] obtain s1 where
    r1: "run_calls cfg pre (n, s) = (n + length pre, s1)"
    and f: "state s1 = Closed" "windowStart s1 = windowStart s"
      "requests s1 = requests s + length pre"
      "failures s1 = failures s + length (filter (\<lambda>c. isBreakerFailure (snd c)) pre)"
    by blast
  let ?s2 = "countCall (IsSuccessful (snd c)) s1"
  have rq: "requests ?s2 = unat (MinRequests cfg)"
    using f(3) fresh len calls by (simp add: countCall_fields)
  have fl: "failures ?s2 = length (filter (\<lambda>c. isBreakerFailure (snd c)) calls)"
    using f(4) fresh calls by (simp add: countCall_fields IsSuccessful_def)
  have "FailureRatio cfg \<le> real (failures ?s2) / real (requests ?s2)"
    using ceiling_ratio [OF N ratio] rq fl by simp
  then have trip: "ReadyToTrip cfg ?s2"
    using rq N by (simp add: ReadyToTrip_def)
  have wc: "fst c - windowStart s1 < Interval cfg" using win calls f(2) by simp
  have step: "CircuitBreakerUnaryClientInterceptor cfg (fst c) (\<lambda>n. (snd c, Suc n)) (n + length pre, s1)
                = (map_option Remote (snd c), Suc (n + length pre), toOpen (fst c) ?s2)"
    using Execute_closed_trip [OF f(1) wc trip] en by (simp add: interceptor_enabled)
  have "run_calls cfg calls (n, s) = (n + length calls, toOpen (fst c) ?s2)"
    using r1 step calls by (simp add: run_calls_append)
  moreover have "state (toOpen (fst c) ?s2) = Open" "openedAt (toOpen (fst c) ?s2) = fst (last calls)"
    by (simp_all add: toOpen_def resetCounts_def c_def)
  ultimately show ?thesis by blast
qed

lemma ReadyToTrip_counted:
  "0 < requests s \<Longrightarrow>
   ReadyToTrip cfg s =
     (unat (MinRequests cfg) \<le> requests s
      \<and> FailureRatio cfg \<le> real (failures s) / real (requests s))"
  by (auto simp: ReadyToTrip_def)

lemma Execute_closed_state:
  assumes "state s = Closed"
  shows "state (snd (snd (Execute cfg now req (w, s)))) =
     (if unat (MinRequests cfg)
           \<le> requests (countCall (IsSuccessful (fst (req w))) (currentState cfg now s))
         \<and> FailureRatio cfg
           \<le> real (failures (countCall (IsSuccessful (fst (req w))) (currentState cfg now s)))
              / real (requests (countCall (IsSuccessful (fst (req w))) (currentState cfg now s)))
      then Open else Closed)"
proof -
  let ?s0 = "currentState cfg now s"
  let ?s1 = "countCall (IsSuccessful (fst (req w))) ?s0"
  have c: "state ?s0 = Closed" using assms by (simp add: currentState_def resetCounts_def)
  have "0 < requests ?s1" by (simp add: countCall_fields)
  note R = ReadyToTrip_counted [OF this, of cfg]
  obtain err w' where r: "req w = (err, w')" by (cases "req w")
  have "state (snd (snd (Execute cfg now req (w, s))))
          = (if ReadyToTrip cfg ?s1 then Open else Closed)"
    using c r
    by (simp add: Execute_def admits_def afterRequest_def Let_def toOpen_def resetCounts_def
        countCall_fields)
  then show ?thesis by (simp only: R)
qed

text \<open>
  Claim C6. While the breaker is Closed, the trip condition is evaluated after each
  completed call, on the counters that include this call: the breaker is Open afterwards
  exactly when the window's request count is at least \<open>MinRequests\<close> and failures by
  requests is at least \<open>FailureRatio\<close>. So for an enabled breaker with an empty window,
  after \<open>N = MinRequests > 0\<close> calls in that window, of which at least
  \<open>\<lceil>N * FailureRatio\<rceil>\<close> were failures, every one of the \<open>N\<close> calls has reached the
  target, the breaker is Open since the last of them, and the next call, made before the
  cool-down is over, is rejected and leaves the target's state untouched.
\<close>

theorem breaker_trips_after_min_requests:
  "(state s0 = Closed \<longrightarrow>
      state (snd (snd (Execute cfg now req (w0, s0)))) =
        (if unat (MinRequests cfg)
              \<le> requests (countCall (IsSuccessful (fst (req w0))) (currentState cfg now s0))
            \<and> FailureRatio cfg
              \<le> real (failures (countCall (IsSuccessful (fst (req w0))) (currentState cfg now s0)))
                 / real (requests (countCall (IsSuccessful (fst (req w0))) (currentState cfg now s0)))
         then Open else Closed))
   \<and> (Enabled cfg \<and> 0 < unat (MinRequests cfg) \<and> length calls = unat (MinRequests cfg)
        \<and> state s = Closed \<and> requests s = 0 \<and> failures s = 0
        \<and> (\<forall>c\<in>set calls. fst c - windowStart s < Interval cfg)
        \<and> \<lceil>real (unat (MinRequests cfg)) * FailureRatio cfg\<rceil>
              \<le> int (length (filter (\<lambda>c. isBreakerFailure (snd c)) calls))
        \<and> t - fst (last calls) < Timeout cfg
      \<longrightarrow> (\<exists>s'. run_calls cfg calls (n, s) = (n + length calls, s')
             \<and> state s' = Open \<and> openedAt s' = fst (last calls)
             \<and> CircuitBreakerUnaryClientInterceptor cfg t invoker (w, s')
                 = (Some BreakerRejected, w, s')))"
proof (intro conjI impI)
  assume "state s0 = Closed"
  then show "state (snd (snd (Execute cfg now req (w0, s0)))) =
        (if unat (MinRequests cfg)
              \<le> requests (countCall (IsSuccessful (fst (req w0))) (currentState cfg now s0))
            \<and> FailureRatio cfg
              \<le> real (failures (countCall (IsSuccessful (fst (req w0))) (currentState cfg now s0)))
                 / real (requests (countCall (IsSuccessful (fst (req w0))) (currentState cfg now s0)))
         then Open else Closed)"
    by (rule Execute_closed_state)
next
  assume a: "Enabled cfg \<and> 0 < unat (MinRequests cfg) \<and> length calls = unat (MinRequests cfg)
        \<and> state s = Closed \<and> requests s = 0 \<and> failures s = 0
        \<and> (\<forall>c\<in>set calls. fst c - windowStart s < Interval cfg)
        \<and> \<lceil>real (unat (MinRequests cfg)) * FailureRatio cfg\<rceil>
              \<le> int (length (filter (\<lambda>c. isBreakerFailure (snd c)) calls))
        \<and> t - fst (last calls) < Timeout cfg"
  then have en: "Enabled cfg" and N: "0 < unat (MinRequests cfg)"
    and len: "length calls = unat (MinRequests cfg)"
    and closed: "state s = Closed" and fresh: "requests s = 0" "failures s = 0"
    and win: "\<forall>c\<in>set calls. fst c - windowStart s < Interval cfg"
    and ratio: "\<lceil>real (unat (MinRequests cfg)) * FailureRatio cfg\<rceil>
                  \<le> int (length (filter (\<lambda>c. isBreakerFailure (snd c)) calls))"
    and nxt: "t - fst (last calls) < Timeout cfg"
    by simp_all
  from run_calls_trips [OF en N len closed fresh win ratio, of n] obtain s' where
    r: "run_calls cfg calls (n, s) = (n + length calls, s')"
    and o: "state s' = Open" and t: "openedAt s' = fst (last calls)" by blast
  have "CircuitBreakerUnaryClientInterceptor cfg t invoker (w, s') = (Some BreakerRejected, w, s')"
    using Execute_open_rejects [of s' t cfg invoker w] o t nxt en
    by (simp add: interceptor_enabled)
  with r o t show "\<exists>s'. run_calls cfg calls (n, s) = (n + length calls, s')
             \<and> state s' = Open \<and> openedAt s' = fst (last calls)
             \<and> CircuitBreakerUnaryClientInterceptor cfg t invoker (w, s')
                 = (Some BreakerRejected, w, s')"
    by blast
qed

theorem breaker_trips_after_min_requests_witness:
  "\<exists>s'. run_calls example_cfg example_calls (0, NewCircuitBreaker 0) = (4, s')
      \<and> state s' = Open \<and> openedAt s' = 4
      \<and> CircuitBreakerUnaryClientInterceptor example_cfg 23 (\<lambda>n. (None, Suc n)) (4, s')
          = (Some BreakerRejected, 4, s')"
proof -
  have h: "Enabled example_cfg \<and> 0 < unat (MinRequests example_cfg)
        \<and> length example_calls = unat (MinRequests example_cfg)
        \<and> state (NewCircuitBreaker 0) = Closed \<and> requests (NewCircuitBreaker 0) = 0
        \<and> failures (NewCircuitBreaker 0) = 0
        \<and> (\<forall>c\<in>set example_calls. fst c - windowStart (NewCircuitBreaker 0) < Interval example_cfg)
        \<and> \<lceil>real (unat (MinRequests example_cfg)) * FailureRatio example_cfg\<rceil>
              \<le> int (length (filter (\<lambda>c. isBreakerFailure (snd c)) example_calls))
        \<and> 23 - fst (last example_calls) < Timeout example_cfg"
    by (simp add: example_cfg_def example_calls_def NewCircuitBreaker_def isBreakerFailure_def)
  from breaker_trips_after_min_requests
    [where ?cfg = example_cfg and ?calls = example_calls and ?s = "NewCircuitBreaker 0"
       and ?t = 23 and ?n = 0 and ?w = 4 and ?invoker = "\<lambda>n. (None, Suc n)",
     THEN conjunct2, rule_format, OF h]
  have r: "\<exists>s'. run_calls example_cfg example_calls (0, NewCircuitBreaker 0)
                 = (0 + length example_calls, s')
      \<and> state s' = Open \<and> openedAt s' = fst (last example_calls)
      \<and> CircuitBreakerUnaryClientInterceptor example_cfg 23 (\<lambda>n. (None, Suc n)) (4, s')
          = (Some BreakerRejected, 4, s')" .
  have l: "length example_calls = 4" "fst (last example_calls) = 4"
    by (simp_all add: example_calls_def)
  from r show ?thesis by (simp add: l)
qed

section \<open>The open and the half-open breaker\<close>

lemma currentState_open_elapsed:
  "state s = Open \<Longrightarrow> Timeout cfg \<le> now - openedAt s \<Longrightarrow> currentState cfg now s = toHalfOpen s"
  by (simp add: currentState_def)

lemma currentState_halfopen: "state s = HalfOpen \<Longrightarrow> currentState cfg now s = s"
  by (simp add: currentState_def)

lemma toHalfOpen_fields:
  "state (toHalfOpen s) = HalfOpen" "requests (toHalfOpen s) = 0" "successes (toHalfOpen s) = 0"
  "failures (toHalfOpen s) = 0" "openedAt (toHalfOpen s) = openedAt s"
  by (simp_all add: toHalfOpen_def resetCounts_def)

lemma Execute_open_elapsed:
  "state s = Open \<Longrightarrow> Timeout cfg \<le> now - openedAt s \<Longrightarrow>
     Execute cfg now req (w, s) = Execute cfg now req (w, toHalfOpen s)"
  by (simp add: Execute_def currentState_open_elapsed currentState_halfopen toHalfOpen_fields)

lemma Execute_leaves_open:
  assumes "state s = Open" "state (snd (snd (Execute cfg now req (w, s)))) \<noteq> Open"
  shows "Timeout cfg \<le> now - openedAt s"
proof (rule ccontr)
  assume "\<not> Timeout cfg \<le> now - openedAt s"
  then have "now - openedAt s < Timeout cfg" by simp
  from Execute_open_rejects [OF assms(1) this, where ?req = req and ?w = w] assms
  show False by simp
qed

lemma Execute_halfopen_full:
  "state s = HalfOpen \<Longrightarrow> unat (MaxRequests cfg) \<le> requests s \<Longrightarrow>
     Execute cfg now req (w, s) = (Some BreakerRejected, w, s)"
  by (simp add: Execute_def currentState_halfopen admits_def)

lemma Execute_halfopen_failure:
  assumes "state s = HalfOpen" "requests s < unat (MaxRequests cfg)" "isBreakerFailure (fst (req w))"
  shows "Execute cfg now req (w, s) = (map_option Remote (fst (req w)), snd (req w), toOpen now s)"
proof -
  obtain err w' where r: "req w = (err, w')" by (cases "req w")
  with assms show ?thesis
    by (simp add: Execute_def currentState_halfopen admits_def afterRequest_def IsSuccessful_def)
qed

lemma Execute_halfopen_success:
  assumes "state s = HalfOpen" "requests s < unat (MaxRequests cfg)" "\<not> isBreakerFailure err"
  shows "Execute cfg now (\<lambda>n. (err, Suc n)) (n, s) =
           (map_option Remote err, Suc n,
            if unat (MaxRequests cfg) \<le> Suc (successes s) then toClosed now (countCall True s)
            else countCall True s)"
  using assms
  by (simp add: Execute_def currentState_halfopen admits_def afterRequest_def IsSuccessful_def
      Let_def countCall_def)

lemma countCall_successes: "successes (countCall True s) = Suc (successes s)"
  by (simp add: countCall_def)

lemma run_probes_below:
  assumes "Enabled cfg"
  shows "state s = HalfOpen \<Longrightarrow> successes s = requests s \<Longrightarrow>
    \<forall>c\<in>set calls. \<not> isBreakerFailure (snd c) \<Longrightarrow>
    requests s + length calls < unat (MaxRequests cfg) \<Longrightarrow>
    (\<exists>s'. run_calls cfg calls (n, s) = (n + length calls, s')
       \<and> state s' = HalfOpen \<and> requests s' = requests s + length calls
       \<and> successes s' = requests s')"
proof (induction calls arbitrary: n s)
  case Nil
  then show ?case by simp
next
  case (Cons c calls)
  let ?s1 = "countCall True s"
  have ok: "\<not> isBreakerFailure (snd c)" using Cons.prems(3) by simp
  have b: "requests s < unat (MaxRequests cfg)" using Cons.prems(4) by simp
  have nc: "\<not> unat (MaxRequests cfg) \<le> Suc (successes s)"
    using Cons.prems(2,4) by simp
  have step: "CircuitBreakerUnaryClientInterceptor cfg (fst c) (\<lambda>n. (snd c, Suc n)) (n, s)
                = (map_option Remote (snd c), Suc n, ?s1)"
    using Execute_halfopen_success [OF Cons.prems(1) b ok, of "fst c" n] nc assms
    by (simp add: interceptor_enabled)
  have 1: "state ?s1 = HalfOpen" using Cons.prems(1) by (simp add: countCall_fields)
  have 2: "successes ?s1 = requests ?s1"
    using Cons.prems(2) by (simp add: countCall_fields countCall_successes)
  have 3: "\<forall>c\<in>set calls. \<not> isBreakerFailure (snd c)" using Cons.prems(3) by simp
  have 4: "requests ?s1 + length calls < unat (MaxRequests cfg)"
    using Cons.prems(4) by (simp add: countCall_fields)
  from Cons.IH [OF 1 2 3 4, of "Suc n"] obtain s' where
    r: "run_calls cfg calls (Suc n, ?s1) = (Suc n + length calls, s')"
    and f: "state s' = HalfOpen" "requests s' = requests ?s1 + length calls"
      "successes s' = requests s'"
    by blast
  have "run_calls cfg (c # calls) (n, s) = (n + length (c # calls), s')"
    using step r by simp
  with f show ?case by (simp add: countCall_fields)
qed

lemma run_probes_close:
  assumes en: "Enabled cfg"
    and M: "0 < unat (MaxRequests cfg)"
    and len: "length calls = unat (MaxRequests cfg)"
    and half: "state s = HalfOpen" and fresh: "requests s = 0" "successes s = 0"
    and ok: "\<forall>c\<in>set calls. \<not> isBreakerFailure (snd c)"
  shows "\<exists>s'. run_calls cfg calls (n, s) = (n + length calls, s')
           \<and> state s' = Closed \<and> requests s' = 0 \<and> failures s' = 0
           \<and> windowStart s' = fst (last calls)"
proof -
  from M len have ne: "calls \<noteq> []" by auto
  define pre c where "pre = butlast calls" and "c = last calls"
  have calls: "calls = pre @ [c]" using ne by (simp add: pre_def c_def)
  have eq: "successes s = requests s" using fresh by simp
  have okp: "\<forall>c\<in>set pre. \<not> isBreakerFailure (snd c)" using ok calls by simp
  have lp: "requests s + length pre < unat (MaxRequests cfg)" using len fresh calls by simp
  from run_probes_below [OF en half eq okp lp, of n] obtain s1 where
    r1: "run_calls cfg pre (n, s) = (n + length pre, s1)"
    and f: "state s1 = HalfOpen" "requests s1 = requests s + length pre"
      "successes s1 = requests s1"
    by blast
  have b: "requests s1 < unat (MaxRequests cfg)" using f(2) lp by simp
  have okc: "\<not> isBreakerFailure (snd c)" using ok calls by simp
  have full: "unat (MaxRequests cfg) \<le> Suc (successes s1)"
    using f(2,3) fresh len calls by simp
  have step: "CircuitBreakerUnaryClientInterceptor cfg (fst c) (\<lambda>n. (snd c, Suc n)) (n + length pre, s1)
                = (map_option Remote (snd c), Suc (n + length pre), toClosed (fst c) (countCall True s1))"
    using Execute_halfopen_success [OF f(1) b okc, of "fst c" "n + length pre"] full en
    by (simp add: interceptor_enabled)
  have "run_calls cfg calls (n, s) = (n + length calls, toClosed (fst c) (countCall True s1))"
    using r1 step calls by (simp add: run_calls_append)
  moreover have "state (toClosed (fst c) (countCall True s1)) = Closed"
    "requests (toClosed (fst c) (countCall True s1)) = 0"
    "failures (toClosed (fst c) (countCall True s1)) = 0"
    "windowStart (toClosed (fst c) (countCall True s1)) = fst (last calls)"
    by (simp_all add: toClosed_def resetCounts_def c_def)
  ultimately show ?thesis by blast
qed

lemma run_calls_open_elapsed:
  assumes "Enabled cfg" "state s = Open" "calls \<noteq> []" "Timeout cfg \<le> fst (hd calls) - openedAt s"
  shows "run_calls cfg calls (n, s) = run_calls cfg calls (n, toHalfOpen s)"
proof -
  from assms(3) obtain c cs where calls: "calls = c # cs" by (cases calls) auto
  with assms show ?thesis
    by (simp add: interceptor_enabled Execute_open_elapsed)
qed

text \<open>
  Claim C7. While the breaker is Open and less than \<open>Timeout\<close> has passed since
  \<open>openedAt\<close>, a call is rejected with the breaker's own error, which no remote error
  equals; the target's state and the breaker are as before. A call can only take the
  breaker out of Open when \<open>Timeout\<close> has passed; then the breaker is HalfOpen before the
  call is attempted. In HalfOpen a call is rejected once \<open>MaxRequests\<close> probes are counted;
  an admitted probe that fails reopens the breaker at that instant; and \<open>MaxRequests\<close>
  successful probes in a row, each of them reaching the target, close it with empty
  counters, the breaker staying HalfOpen until the last of them.
\<close>

theorem open_breaker_rejects_until_timeout:
  "(state s = Open \<and> now - openedAt s < Timeout cfg \<longrightarrow>
      Execute cfg now req (w, s) = (Some BreakerRejected, w, s))
   \<and> BreakerRejected \<noteq> Remote err
   \<and> (state s = Open \<and> state (snd (snd (Execute cfg now req (w, s)))) \<noteq> Open \<longrightarrow>
      Timeout cfg \<le> now - openedAt s)
   \<and> (state s = Open \<and> Timeout cfg \<le> now - openedAt s \<longrightarrow>
      state (currentState cfg now s) = HalfOpen
      \<and> Execute cfg now req (w, s) = Execute cfg now req (w, toHalfOpen s))
   \<and> (state s = HalfOpen \<and> unat (MaxRequests cfg) \<le> requests s \<longrightarrow>
      Execute cfg now req (w, s) = (Some BreakerRejected, w, s))
   \<and> (state s = HalfOpen \<and> requests s < unat (MaxRequests cfg)
        \<and> isBreakerFailure (fst (req w)) \<longrightarrow>
      Execute cfg now req (w, s)
        = (map_option Remote (fst (req w)), snd (req w), toOpen now s)
      \<and> state (toOpen now s) = Open \<and> openedAt (toOpen now s) = now)
   \<and> (Enabled cfg \<and> 0 < unat (MaxRequests cfg) \<and> length calls = unat (MaxRequests cfg)
        \<and> state s = Open \<and> Timeout cfg \<le> fst (hd calls) - openedAt s
        \<and> (\<forall>c\<in>set calls. \<not> isBreakerFailure (snd c)) \<longrightarrow>
      (\<exists>s'. run_calls cfg calls (n, s) = (n + length calls, s')
         \<and> state s' = Closed \<and> requests s' = 0 \<and> failures s' = 0
         \<and> windowStart s' = fst (last calls))
      \<and> (\<forall>k<length calls.
            \<exists>s'. run_calls cfg (take k calls) (n, toHalfOpen s) = (n + k, s')
              \<and> state s' = HalfOpen \<and> requests s' = k))"
proof (intro conjI impI)
  assume "state s = Open \<and> now - openedAt s < Timeout cfg"
  then show "Execute cfg now req (w, s) = (Some BreakerRejected, w, s)"
    by (simp add: Execute_open_rejects)
next
  show "BreakerRejected \<noteq> Remote err" by simp
next
  assume "state s = Open \<and> state (snd (snd (Execute cfg now req (w, s)))) \<noteq> Open"
  then show "Timeout cfg \<le> now - openedAt s"
    using Execute_leaves_open [of s cfg now req w] by blast
next
  assume a: "state s = Open \<and> Timeout cfg \<le> now - openedAt s"
  then show "state (currentState cfg now s) = HalfOpen"
    by (simp add: currentState_open_elapsed toHalfOpen_fields)
  from a show "Execute cfg now req (w, s) = Execute cfg now req (w, toHalfOpen s)"
    by (simp add: Execute_open_elapsed)
next
  assume "state s = HalfOpen \<and> unat (MaxRequests cfg) \<le> requests s"
  then show "Execute cfg now req (w, s) = (Some BreakerRejected, w, s)"
    by (simp add: Execute_halfopen_full)
next
  assume a: "state s = HalfOpen \<and> requests s < unat (MaxRequests cfg)
        \<and> isBreakerFailure (fst (req w))"
  then show "Execute cfg now req (w, s)
        = (map_option Remote (fst (req w)), snd (req w), toOpen now s)"
    by (simp add: Execute_halfopen_failure)
  show "state (toOpen now s) = Open" "openedAt (toOpen now s) = now"
    by (simp_all add: toOpen_def resetCounts_def)
next
  assume a: "Enabled cfg \<and> 0 < unat (MaxRequests cfg) \<and> length calls = unat (MaxRequests cfg)
        \<and> state s = Open \<and> Timeout cfg \<le> fst (hd calls) - openedAt s
        \<and> (\<forall>c\<in>set calls. \<not> isBreakerFailure (snd c))"
  then have en: "Enabled cfg" and M: "0 < unat (MaxRequests cfg)"
    and len: "length calls = unat (MaxRequests cfg)"
    and op: "state s = Open" and el: "Timeout cfg \<le> fst (hd calls) - openedAt s"
    and ok: "\<forall>c\<in>set calls. \<not> isBreakerFailure (snd c)"
    by simp_all
  from M len have ne: "calls \<noteq> []" by auto
  have eq: "run_calls cfg calls (n, s) = run_calls cfg calls (n, toHalfOpen s)"
    by (rule run_calls_open_elapsed [OF en op ne el])
  from run_probes_close [OF en M len, of "toHalfOpen s" n] ok
  have "\<exists>s'. run_calls cfg calls (n, toHalfOpen s) = (n + length calls, s')
           \<and> state s' = Closed \<and> requests s' = 0 \<and> failures s' = 0
           \<and> windowStart s' = fst (last calls)"
    by (simp add: toHalfOpen_fields)
  then show "\<exists>s'. run_calls cfg calls (n, s) = (n + length calls, s')
         \<and> state s' = Closed \<and> requests s' = 0 \<and> failures s' = 0
         \<and> windowStart s' = fst (last calls)"
    by (simp only: eq)
  show "\<forall>k<length calls.
            \<exists>s'. run_calls cfg (take k calls) (n, toHalfOpen s) = (n + k, s')
              \<and> state s' = HalfOpen \<and> requests s' = k"
  proof (intro allI impI)
    fix k assume k: "k < length calls"
    have okp: "\<forall>c\<in>set (take k calls). \<not> isBreakerFailure (snd c)"
      using ok by (auto dest: in_set_takeD)
    have lp: "requests (toHalfOpen s) + length (take k calls) < unat (MaxRequests cfg)"
      using k len by (simp add: toHalfOpen_fields)
    from run_probes_below [OF en _ _ okp lp, of n]
    have "\<exists>s'. run_calls cfg (take k calls) (n, toHalfOpen s) = (n + k, s')
              \<and> state s' = HalfOpen \<and> requests s' = k \<and> successes s' = requests s'"
      using k by (simp add: toHalfOpen_fields)
    then show "\<exists>s'. run_calls cfg (take k calls) (n, toHalfOpen s) = (n + k, s')
              \<and> state s' = HalfOpen \<and> requests s' = k"
      by blast
  qed
qed

theorem open_breaker_rejects_until_timeout_witness:
  "Execute example_cfg 23 (\<lambda>n. (None, Suc n)) (0 :: nat, example_open)
     = (Some BreakerRejected, 0, example_open)
   \<and> state (currentState example_cfg 24 example_open) = HalfOpen
   \<and> Execute example_cfg 24 (\<lambda>n. (None, Suc n)) (0 :: nat, example_halfopen_full)
       = (Some BreakerRejected, 0, example_halfopen_full)
   \<and> Execute example_cfg 24 (\<lambda>n. (Some (TransportErr ''reset''), Suc n))
         (0 :: nat, toHalfOpen example_open)
       = (Some (Remote (TransportErr ''reset'')), 1, toOpen 24 (toHalfOpen example_open))
   \<and> (\<exists>s'. run_calls example_cfg example_probes (0, example_open) = (2, s')
         \<and> state s' = Closed)"
proof (intro conjI)
  have h: "state example_open = Open \<and> 23 - openedAt example_open < Timeout example_cfg"
    by (simp add: example_open_def example_cfg_def toOpen_def resetCounts_def)
  from open_breaker_rejects_until_timeout
    [where ?s = example_open and ?now = 23 and ?cfg = example_cfg
       and ?req = "\<lambda>n. (None, Suc n)" and ?w = "0 :: nat",
     THEN conjunct1, rule_format, OF h]
  show "Execute example_cfg 23 (\<lambda>n. (None, Suc n)) (0 :: nat, example_open)
     = (Some BreakerRejected, 0, example_open)" .
next
  have h: "state example_open = Open \<and> Timeout example_cfg \<le> 24 - openedAt example_open"
    by (simp add: example_open_def example_cfg_def toOpen_def resetCounts_def)
  from open_breaker_rejects_until_timeout
    [where ?s = example_open and ?now = 24 and ?cfg = example_cfg
       and ?req = "\<lambda>n. (None, Suc n)" and ?w = "0 :: nat",
     THEN conjunct2, THEN conjunct2, THEN conjunct2, THEN conjunct1, rule_format, OF h]
  show "state (currentState example_cfg 24 example_open) = HalfOpen" by simp
next
  have h: "state example_halfopen_full = HalfOpen
             \<and> unat (MaxRequests example_cfg) \<le> requests example_halfopen_full"
    by (simp add: example_halfopen_full_def example_cfg_def)
  from open_breaker_rejects_until_timeout
    [where ?s = example_halfopen_full and ?now = 24 and ?cfg = example_cfg
       and ?req = "\<lambda>n. (None, Suc n)" and ?w = "0 :: nat",
     THEN conjunct2, THEN conjunct2, THEN conjunct2, THEN conjunct2, THEN conjunct1,
     rule_format, OF h]
  show "Execute example_cfg 24 (\<lambda>n. (None, Suc n)) (0 :: nat, example_halfopen_full)
       = (Some BreakerRejected, 0, example_halfopen_full)" .
next
  have h: "state (toHalfOpen example_open) = HalfOpen
             \<and> requests (toHalfOpen example_open) < unat (MaxRequests example_cfg)
             \<and> isBreakerFailure (fst ((\<lambda>n. (Some (TransportErr ''reset''), Suc n)) (0 :: nat)))"
    by (simp add: toHalfOpen_def resetCounts_def example_cfg_def isBreakerFailure_def)
  from open_breaker_rejects_until_timeout
    [where ?s = "toHalfOpen example_open" and ?now = 24 and ?cfg = example_cfg
       and ?req = "\<lambda>n. (Some (TransportErr ''reset''), Suc n)" and ?w = "0 :: nat",
     THEN conjunct2, THEN conjunct2, THEN conjunct2, THEN conjunct2, THEN conjunct2,
     THEN conjunct1, rule_format, OF h]
  show "Execute example_cfg 24 (\<lambda>n. (Some (TransportErr ''reset''), Suc n))
         (0 :: nat, toHalfOpen example_open)
       = (Some (Remote (TransportErr ''reset'')), 1, toOpen 24 (toHalfOpen example_open))"
    by simp
next
  have h: "Enabled example_cfg \<and> 0 < unat (MaxRequests example_cfg)
        \<and> length example_probes = unat (MaxRequests example_cfg)
        \<and> state example_open = Open
        \<and> Timeout example_cfg \<le> fst (hd example_probes) - openedAt example_open
        \<and> (\<forall>c\<in>set example_probes. \<not> isBreakerFailure (snd c))"
    by (simp add: example_cfg_def example_probes_def example_open_def toOpen_def resetCounts_def
        isBreakerFailure_def)
  from open_breaker_rejects_until_timeout
    [where ?s = example_open and ?cfg = example_cfg and ?calls = example_probes and ?n = 0,
     THEN conjunct2, THEN conjunct2, THEN conjunct2, THEN conjunct2, THEN conjunct2,
     THEN conjunct2, rule_format, OF h, THEN conjunct1]
  have "\<exists>s'. run_calls example_cfg example_probes (0, example_open)
               = (0 + length example_probes, s')
           \<and> state s' = Closed \<and> requests s' = 0 \<and> failures s' = 0
           \<and> windowStart s' = fst (last example_probes)" .
  moreover have "length example_probes = 2" by (simp add: example_probes_def)
  ultimately show "\<exists>s'. run_calls example_cfg example_probes (0, example_open) = (2, s')
         \<and> state s' = Closed"
    by auto
qed

end
